theory Spec2Isabelle
  imports Complex_Main
begin

section \<open>Data model\<close>

text \<open>
  The geometry pipeline of \<^verbatim>\<open>Source/Core/GeometryPipeline.js\<close> works on
  JavaScript objects. A \<^verbatim>\<open>Geometry\<close> holds an attribute bag, an optional index
  list, a primitive type and an optional bounding sphere.

  A JavaScript array is modelled by the list of its elements; an element is
  \<open>None\<close> where the array holds \<^verbatim>\<open>undefined\<close> (or a hole, which reads as
  \<^verbatim>\<open>undefined\<close>). Reading past the end gives \<^verbatim>\<open>undefined\<close>, storing past
  the end extends the array with holes. The entries of an index list are natural
  numbers or \<^verbatim>\<open>undefined\<close>; the values of an attribute are of any type \<open>'a\<close>.
\<close>

type_synonym 'a jsarray = "'a option list"

definition jsget :: "'a jsarray \<Rightarrow> nat \<Rightarrow> 'a option" where
  "jsget xs i = (if i < length xs then xs ! i else None)"

definition jsset :: "'a jsarray \<Rightarrow> nat \<Rightarrow> 'a option \<Rightarrow> 'a jsarray" where
  "jsset xs i v =
     (if i < length xs then xs[i := v]
      else xs @ replicate (i - length xs) None @ [v])"

datatype PrimitiveType =
  POINTS | LINES | LINE_STRIP | LINE_LOOP | TRIANGLES | TRIANGLE_STRIP | TRIANGLE_FAN

text \<open>
  Modelled from the spec: \<^verbatim>\<open>ComponentDatatype\<close> is not among the sources. It is
  the numeric type tag of an attribute; the pipeline names only \<^verbatim>\<open>FLOAT\<close>.
\<close>

datatype ComponentDatatype = FLOAT | OTHER_DATATYPE nat

text \<open>
  A thrown exception is a value: the \<^verbatim>\<open>DeveloperError\<close> of the pipeline with its
  message, or the \<^verbatim>\<open>TypeError\<close> of a property access on \<^verbatim>\<open>undefined\<close>.
\<close>

datatype error = DeveloperError string | TypeError

record 'a GeometryAttribute =
  componentDatatype :: ComponentDatatype
  componentsPerAttribute :: nat
  normalize :: bool
  "values" :: "'a jsarray option"

text \<open>
  The attribute bag is an object keyed by attribute name; \<^verbatim>\<open>for (name in attributes)\<close>
  enumerates the names in insertion order, so the bag is an association list.
\<close>

record ('a, 'b) Geometry =
  attributes :: "(string \<times> 'a GeometryAttribute) list"
  indexList :: "nat jsarray option"
  primitiveType :: PrimitiveType
  boundingSphere :: "'b option"

section \<open>toWireframe\<close>

definition addTriangle ::
  "nat jsarray \<Rightarrow> nat option \<Rightarrow> nat option \<Rightarrow> nat option \<Rightarrow> nat jsarray" where
  "addTriangle lines i0 i1 i2 = lines @ [i0, i1, i1, i2, i2, i0]"

function trianglesToLines_loop :: "nat jsarray \<Rightarrow> nat \<Rightarrow> nat jsarray \<Rightarrow> nat jsarray" where
  "trianglesToLines_loop triangles i lines =
     (if i < length triangles
      then trianglesToLines_loop triangles (i + 3)
             (addTriangle lines (jsget triangles i) (jsget triangles (i + 1))
                (jsget triangles (i + 2)))
      else lines)"
  by pat_completeness auto
termination
  by (relation "measure (\<lambda>(triangles, i, lines). length triangles - i)") auto

definition trianglesToLines :: "nat jsarray \<Rightarrow> nat jsarray" where
  "trianglesToLines triangles = trianglesToLines_loop triangles 0 []"

function triangleStripToLines_loop :: "nat jsarray \<Rightarrow> nat \<Rightarrow> nat jsarray \<Rightarrow> nat jsarray" where
  "triangleStripToLines_loop triangles i lines =
     (if i < length triangles
      then triangleStripToLines_loop triangles (i + 1)
             (addTriangle lines (jsget triangles (i - 1)) (jsget triangles i)
                (jsget triangles (i - 2)))
      else lines)"
  by pat_completeness auto
termination
  by (relation "measure (\<lambda>(triangles, i, lines). length triangles - i)") auto

definition triangleStripToLines :: "nat jsarray \<Rightarrow> nat jsarray" where
  "triangleStripToLines triangles =
     (if length triangles \<ge> 3
      then triangleStripToLines_loop triangles 3
             (addTriangle [] (jsget triangles 0) (jsget triangles 1) (jsget triangles 2))
      else [])"

function triangleFanToLines_loop ::
  "nat jsarray \<Rightarrow> nat option \<Rightarrow> nat \<Rightarrow> nat \<Rightarrow> nat jsarray \<Rightarrow> nat jsarray" where
  "triangleFanToLines_loop triangles base count i lines =
     (if i < count
      then triangleFanToLines_loop triangles base count (i + 1)
             (addTriangle lines base (jsget triangles i) (jsget triangles (i + 1)))
      else lines)"
  by pat_completeness auto
termination
  by (relation "measure (\<lambda>(triangles, base, count, i, lines). count - i)") auto

definition triangleFanToLines :: "nat jsarray \<Rightarrow> nat jsarray" where
  "triangleFanToLines triangles =
     (if length triangles > 0
      then triangleFanToLines_loop triangles (jsget triangles 0) (length triangles - 1) 1 []
      else [])"

text \<open>
  The functions of the pipeline receive the geometry object or \<^verbatim>\<open>undefined\<close>
  (\<open>None\<close>). They change the object in place and return it; the model returns the
  changed record. In \<^verbatim>\<open>toWireframe\<close> the \<^verbatim>\<open>switch\<close> has no default case, and
  the assignment of \<^verbatim>\<open>PrimitiveType.LINES\<close> follows it inside the test for the
  index list.
\<close>

definition toWireframe :: "('a, 'b) Geometry option \<Rightarrow> error + ('a, 'b) Geometry" where
  "toWireframe geometry =
     (case geometry of
        None \<Rightarrow> Inl (DeveloperError ''geometry is required.'')
      | Some g \<Rightarrow>
          (case indexList g of
             None \<Rightarrow> Inr g
           | Some indices \<Rightarrow>
               Inr ((case primitiveType g of
                       TRIANGLES \<Rightarrow> g\<lparr>indexList := Some (trianglesToLines indices)\<rparr>
                     | TRIANGLE_STRIP \<Rightarrow> g\<lparr>indexList := Some (triangleStripToLines indices)\<rparr>
                     | TRIANGLE_FAN \<Rightarrow> g\<lparr>indexList := Some (triangleFanToLines indices)\<rparr>
                     | _ \<Rightarrow> g)\<lparr>primitiveType := LINES\<rparr>)))"

section \<open>reorderForPostVertexCache\<close>

text \<open>
  \<^verbatim>\<open>Tipsify.tipsify\<close> is not among the sources: it is a parameter of the model. It
  receives the index array, the largest index and the optional cache capacity, and
  returns the reordered indices or throws.
\<close>

type_synonym tipsify_fn = "nat jsarray \<Rightarrow> nat \<Rightarrow> nat option \<Rightarrow> error + nat jsarray"

text \<open>The comparison \<^verbatim>\<open>indices[j] > maximumIndex\<close> is false for \<^verbatim>\<open>undefined\<close>.\<close>

fun maximumIndex_loop :: "nat jsarray \<Rightarrow> nat \<Rightarrow> nat" where
  "maximumIndex_loop [] maximumIndex = maximumIndex"
| "maximumIndex_loop (x # xs) maximumIndex =
     maximumIndex_loop xs
       (case x of None \<Rightarrow> maximumIndex
        | Some v \<Rightarrow> if v > maximumIndex then v else maximumIndex)"

definition reorderForPostVertexCache ::
  "tipsify_fn \<Rightarrow> ('a, 'b) Geometry option \<Rightarrow> nat option \<Rightarrow> error + ('a, 'b) Geometry" where
  "reorderForPostVertexCache tipsify geometry cacheCapacity =
     (case geometry of
        None \<Rightarrow> Inl (DeveloperError ''geometry is required.'')
      | Some g \<Rightarrow>
          (case indexList g of
             Some indices \<Rightarrow>
               if primitiveType g = TRIANGLES
               then (case tipsify indices (maximumIndex_loop indices 0) cacheCapacity of
                       Inl e \<Rightarrow> Inl e
                     | Inr out \<Rightarrow> Inr (g\<lparr>indexList := Some out\<rparr>))
               else Inr g
           | None \<Rightarrow> Inr g))"

section \<open>Number of vertices\<close>

text \<open>
  Modelled from the spec: \<^verbatim>\<open>Geometry.computeNumberOfVertices\<close> is not among the
  sources. The spec gives the number of vertices as attribute length / components, asks
  that every attribute's length is a multiple of its component count and that all
  attributes of a mesh agree on the vertex count, and calls a violation a contract
  error. Attributes without a value array carry no vertices and are passed over, as in
  the pipeline's own loops. The spec is silent about a mesh none of whose attributes has
  values: no count can be computed from it, and the model reports an error.
\<close>

fun computeNumberOfVertices_loop ::
  "(string \<times> 'a GeometryAttribute) list \<Rightarrow> nat option \<Rightarrow> error + nat option" where
  "computeNumberOfVertices_loop [] numberOfVertices = Inr numberOfVertices"
| "computeNumberOfVertices_loop ((name, attribute) # rest) numberOfVertices =
     (case values attribute of
        None \<Rightarrow> computeNumberOfVertices_loop rest numberOfVertices
      | Some vs \<Rightarrow>
          if componentsPerAttribute attribute = 0
             \<or> length vs mod componentsPerAttribute attribute \<noteq> 0
          then Inl (DeveloperError ''attribute length must be a multiple of its components.'')
          else
            (let num = length vs div componentsPerAttribute attribute
             in if numberOfVertices \<noteq> None \<and> numberOfVertices \<noteq> Some num
                then Inl (DeveloperError
                       ''All attribute lists must have the same number of attributes.'')
                else computeNumberOfVertices_loop rest (Some num)))"

definition computeNumberOfVertices :: "('a, 'b) Geometry \<Rightarrow> error + nat" where
  "computeNumberOfVertices g =
     (case computeNumberOfVertices_loop (attributes g) None of
        Inl e \<Rightarrow> Inl e
      | Inr None \<Rightarrow> Inl (DeveloperError ''geometry has no attribute values.'')
      | Inr (Some n) \<Rightarrow> Inr n)"

section \<open>reorderForPreVertexCache\<close>

text \<open>
  \<^verbatim>\<open>indexCrossReferenceOldToNew\<close> is an array of \<^verbatim>\<open>numVertices\<close> numbers, all
  \<open>-1\<close> at first. Reading it at an index that is \<^verbatim>\<open>undefined\<close> or not below its
  length gives \<^verbatim>\<open>undefined\<close>.
\<close>

definition crossReference :: "int list \<Rightarrow> nat option \<Rightarrow> int option" where
  "crossReference xref idx =
     (case idx of
        None \<Rightarrow> None
      | Some x \<Rightarrow> if x < length xref then Some (xref ! x) else None)"

text \<open>
  The \<^verbatim>\<open>while\<close> loop over \<^verbatim>\<open>indicesIn\<close>. The test \<^verbatim>\<open>tempIndex !== -1\<close> is
  strict inequality, so it holds for \<^verbatim>\<open>undefined\<close> too: for an index that is
  \<^verbatim>\<open>undefined\<close> the read gives \<^verbatim>\<open>undefined\<close>, which is emitted. In the other
  branch the entry read was \<open>-1\<close>, so the index is a number below the array's length
  and the store \<^verbatim>\<open>indexCrossReferenceOldToNew[tempIndex] = nextIndex\<close> is a list
  update. The entries different from \<open>-1\<close> are values of the counter
  \<^verbatim>\<open>nextIndex\<close>.
\<close>

fun reorderIndices_loop ::
  "nat \<Rightarrow> nat jsarray \<Rightarrow> int list \<Rightarrow> nat \<Rightarrow> nat jsarray \<Rightarrow> error + (int list \<times> nat jsarray)" where
  "reorderIndices_loop numVertices [] xref nextIndex indicesOut = Inr (xref, indicesOut)"
| "reorderIndices_loop numVertices (None # indicesIn) xref nextIndex indicesOut =
     reorderIndices_loop numVertices indicesIn xref nextIndex (indicesOut @ [None])"
| "reorderIndices_loop numVertices (Some t # indicesIn) xref nextIndex indicesOut =
     (let tempIndex = crossReference xref (Some t)
      in if tempIndex \<noteq> Some (- 1)
         then reorderIndices_loop numVertices indicesIn xref nextIndex
                (indicesOut @ [map_option nat tempIndex])
         else if t \<ge> numVertices
         then Inl (DeveloperError
           ''Each attribute array in geometry.attributes must have the same number of attributes.'')
         else reorderIndices_loop numVertices indicesIn (xref[t := int nextIndex])
                (nextIndex + 1) (indicesOut @ [Some nextIndex]))"

text \<open>
  A store \<^verbatim>\<open>elementsOut[k] = v\<close> with a negative \<open>k\<close> creates a property named by
  \<open>k\<close>; the elements and the length of the array stay as they are. The same holds
  for a key that is not a number (\<open>None\<close>).
\<close>

definition jsset_key :: "'a jsarray \<Rightarrow> int option \<Rightarrow> 'a option \<Rightarrow> 'a jsarray" where
  "jsset_key xs k v =
     (case k of
        None \<Rightarrow> xs
      | Some i \<Rightarrow> if i < 0 then xs else jsset xs (nat i) v)"

function reorderComponents_loop ::
  "nat \<Rightarrow> int option \<Rightarrow> 'a jsarray \<Rightarrow> nat \<Rightarrow> nat \<Rightarrow> 'a jsarray \<Rightarrow> 'a jsarray" where
  "reorderComponents_loop numComponents temp elementsIn intoElementsIn i elementsOut =
     (if i < numComponents
      then reorderComponents_loop numComponents temp elementsIn intoElementsIn (i + 1)
             (jsset_key elementsOut
                (map_option (\<lambda>t. int numComponents * t + int i) temp)
                (jsget elementsIn (numComponents * intoElementsIn + i)))
      else elementsOut)"
  by pat_completeness auto
termination
  by (relation "measure (\<lambda>(numComponents, temp, elementsIn, intoElementsIn, i, elementsOut).
        numComponents - i)") auto

function reorderElements_loop ::
  "nat \<Rightarrow> int list \<Rightarrow> nat \<Rightarrow> 'a jsarray \<Rightarrow> nat \<Rightarrow> 'a jsarray \<Rightarrow> 'a jsarray" where
  "reorderElements_loop numVertices xref numComponents elementsIn intoElementsIn elementsOut =
     (if intoElementsIn < numVertices
      then reorderElements_loop numVertices xref numComponents elementsIn (intoElementsIn + 1)
             (reorderComponents_loop numComponents (crossReference xref (Some intoElementsIn))
                elementsIn intoElementsIn 0 elementsOut)
      else elementsOut)"
  by pat_completeness auto
termination
  by (relation "measure (\<lambda>(numVertices, xref, numComponents, elementsIn, intoElementsIn,
        elementsOut). numVertices - intoElementsIn)") auto

text \<open>An attribute whose \<^verbatim>\<open>values\<close> is \<^verbatim>\<open>undefined\<close> is passed over.\<close>

fun reorderAttributes ::
  "nat \<Rightarrow> int list \<Rightarrow> (string \<times> 'a GeometryAttribute) list
   \<Rightarrow> (string \<times> 'a GeometryAttribute) list" where
  "reorderAttributes numVertices xref [] = []"
| "reorderAttributes numVertices xref ((property, attribute) # rest) =
     (case values attribute of
        None \<Rightarrow> (property, attribute)
      | Some elementsIn \<Rightarrow>
          (property, attribute\<lparr>values := Some (reorderElements_loop numVertices xref
             (componentsPerAttribute attribute) elementsIn 0 [])\<rparr>))
     # reorderAttributes numVertices xref rest"

definition reorderForPreVertexCache ::
  "('a, 'b) Geometry option \<Rightarrow> error + ('a, 'b) Geometry" where
  "reorderForPreVertexCache geometry =
     (case geometry of
        None \<Rightarrow> Inl (DeveloperError ''geometry is required.'')
      | Some g \<Rightarrow>
          (case computeNumberOfVertices g of
             Inl e \<Rightarrow> Inl e
           | Inr numVertices \<Rightarrow>
               (case indexList g of
                  None \<Rightarrow>
                    Inr (g\<lparr>attributes :=
                      reorderAttributes numVertices (replicate numVertices (- 1)) (attributes g)\<rparr>)
                | Some indicesIn \<Rightarrow>
                    (case reorderIndices_loop numVertices indicesIn
                            (replicate numVertices (- 1)) 0 [] of
                       Inl e \<Rightarrow> Inl e
                     | Inr (xref, indicesOut) \<Rightarrow>
                         Inr (g\<lparr>indexList := Some indicesOut,
                                attributes :=
                                  reorderAttributes numVertices xref (attributes g)\<rparr>)))))"

section \<open>Vocabulary for the claims about reorderForPreVertexCache\<close>

text \<open>
  The indices of an index list that name a vertex: the numbers below
  \<open>numVertices\<close>, in the order of the list.
\<close>

fun referenced :: "nat \<Rightarrow> nat jsarray \<Rightarrow> nat list" where
  "referenced numVertices [] = []"
| "referenced numVertices (None # rest) = referenced numVertices rest"
| "referenced numVertices (Some x # rest) =
     (if x < numVertices then x # referenced numVertices rest
      else referenced numVertices rest)"

text \<open>
  The rank of the first occurrence of \<open>x\<close> in the scanned list: the number of
  distinct values met before \<open>x\<close> is met. The first value seen has rank 0, the next
  distinct value rank 1, and so on.
\<close>

definition firstReferenceRank :: "nat list \<Rightarrow> nat \<Rightarrow> nat" where
  "firstReferenceRank xs x = card (set (takeWhile (\<lambda>y. y \<noteq> x) xs))"

text \<open>
  What the scan emits for an entry of the index list, and the cross reference it
  leaves behind, as functions of the list of referenced vertices.
\<close>

definition renumber :: "nat \<Rightarrow> nat list \<Rightarrow> nat option \<Rightarrow> nat option" where
  "renumber numVertices xs idx =
     (case idx of
        None \<Rightarrow> None
      | Some x \<Rightarrow> if x < numVertices then Some (firstReferenceRank xs x) else None)"

definition xrefOf :: "nat \<Rightarrow> nat list \<Rightarrow> int list" where
  "xrefOf numVertices xs =
     map (\<lambda>x. if x \<in> set xs then int (firstReferenceRank xs x) else - 1) [0..<numVertices]"

text \<open>
  The component block of every referenced vertex \<open>x\<close> is found in the slot given by
  the rank of \<open>x\<close>.
\<close>

definition blocksMoved :: "nat list \<Rightarrow> nat \<Rightarrow> 'a jsarray \<Rightarrow> 'a jsarray \<Rightarrow> bool" where
  "blocksMoved xs numComponents elementsIn elementsOut \<longleftrightarrow>
     (\<forall>x\<in>set xs. \<forall>c\<in>{0..<numComponents}.
        jsget elementsOut (numComponents * firstReferenceRank xs x + c)
        = jsget elementsIn (numComponents * x + c))"

definition attributeMoved ::
  "nat list \<Rightarrow> string \<times> 'a GeometryAttribute \<Rightarrow> string \<times> 'a GeometryAttribute \<Rightarrow> bool" where
  "attributeMoved xs old new \<longleftrightarrow>
     fst new = fst old
     \<and> componentDatatype (snd new) = componentDatatype (snd old)
     \<and> componentsPerAttribute (snd new) = componentsPerAttribute (snd old)
     \<and> normalize (snd new) = normalize (snd old)
     \<and> (case values (snd old) of
          None \<Rightarrow> values (snd new) = None
        | Some elementsIn \<Rightarrow>
            (case values (snd new) of
               None \<Rightarrow> False
             | Some elementsOut \<Rightarrow>
                 blocksMoved xs (componentsPerAttribute (snd old)) elementsIn elementsOut))"

text \<open>
  Every attribute that has values has a positive component count and holds \<open>m\<close>
  vertices; some attribute has values.
\<close>

definition uniformAttributes :: "(string \<times> 'a GeometryAttribute) list \<Rightarrow> nat \<Rightarrow> bool" where
  "uniformAttributes attrs m \<longleftrightarrow>
     (\<forall>na\<in>set attrs. \<forall>vs. values (snd na) = Some vs \<longrightarrow>
        0 < componentsPerAttribute (snd na) \<and> length vs = componentsPerAttribute (snd na) * m)"

definition hasValues :: "(string \<times> 'a GeometryAttribute) list \<Rightarrow> bool" where
  "hasValues attrs \<longleftrightarrow> (\<exists>na\<in>set attrs. values (snd na) \<noteq> None)"

text \<open>
  The example of the spec: four vertices with two components each, indices
  \<open>[2, 2, 0, 1]\<close>; and a geometry of one vertex whose index list names vertex 1.
\<close>

definition exampleGeometry :: "(int, unit) Geometry" where
  "exampleGeometry =
     \<lparr>attributes = [(''position'', \<lparr>componentDatatype = FLOAT,
          componentsPerAttribute = 2, normalize = False,
          values = Some [Some 10, Some 11, Some 20, Some 21, Some 30, Some 31,
                         Some 40, Some 41]\<rparr>)],
      indexList = Some [Some 2, Some 2, Some 0, Some 1],
      primitiveType = TRIANGLES, boundingSphere = None\<rparr>"

definition exampleReordered :: "(int, unit) Geometry" where
  "exampleReordered =
     \<lparr>attributes = [(''position'', \<lparr>componentDatatype = FLOAT,
          componentsPerAttribute = 2, normalize = False,
          values = Some [Some 30, Some 31, Some 10, Some 11, Some 20, Some 21]\<rparr>)],
      indexList = Some [Some 0, Some 0, Some 1, Some 2],
      primitiveType = TRIANGLES, boundingSphere = None\<rparr>"

definition outOfRangeGeometry :: "(int, unit) Geometry" where
  "outOfRangeGeometry =
     \<lparr>attributes = [(''position'', \<lparr>componentDatatype = FLOAT,
          componentsPerAttribute = 3, normalize = False,
          values = Some [Some 10, Some 11, Some 12]\<rparr>)],
      indexList = Some [Some 1],
      primitiveType = TRIANGLES, boundingSphere = None\<rparr>"

section \<open>computeNormal\<close>

text \<open>
  \<^verbatim>\<open>Cartesian3\<close> is not among the sources. A vector is the triple of its
  components, each a JavaScript value (a number, or \<open>None\<close> for \<^verbatim>\<open>undefined\<close>);
  the four vector operations \<^verbatim>\<open>computeNormal\<close> calls are parameters of the model.
  \<^verbatim>\<open>a.subtract(b, r)\<close> is \<open>c3subtract a b\<close>, \<^verbatim>\<open>a.cross(b)\<close> is \<open>c3cross a b\<close>,
  \<^verbatim>\<open>a.add(b, r)\<close> is \<open>c3add a b\<close>, \<^verbatim>\<open>a.normalize(r)\<close> is \<open>c3normalize a\<close>.
\<close>

type_synonym 'a Cartesian3 = "'a option \<times> 'a option \<times> 'a option"

record 'a Cartesian3Ops =
  c3subtract :: "'a Cartesian3 \<Rightarrow> 'a Cartesian3 \<Rightarrow> 'a Cartesian3"
  c3cross :: "'a Cartesian3 \<Rightarrow> 'a Cartesian3 \<Rightarrow> 'a Cartesian3"
  c3add :: "'a Cartesian3 \<Rightarrow> 'a Cartesian3 \<Rightarrow> 'a Cartesian3"
  c3normalize :: "'a Cartesian3 \<Rightarrow> 'a Cartesian3"

record NormalData =
  indexOffset :: nat
  count :: nat
  currentCount :: nat

text \<open>
  \<^verbatim>\<open>v.x = vertices[i03]; v.y = vertices[i03 + 1]; v.z = vertices[i03 + 2]\<close> with
  \<^verbatim>\<open>i03 = i0 * 3\<close>. For an index that is \<^verbatim>\<open>undefined\<close> the product is not a
  number and the three reads give \<^verbatim>\<open>undefined\<close>.
\<close>

definition vertexAt :: "'a jsarray \<Rightarrow> nat option \<Rightarrow> 'a Cartesian3" where
  "vertexAt vertices idx =
     (case idx of
        None \<Rightarrow> (None, None, None)
      | Some i0 \<Rightarrow>
          (jsget vertices (i0 * 3), jsget vertices (i0 * 3 + 1), jsget vertices (i0 * 3 + 2)))"

text \<open>
  \<^verbatim>\<open>normalsPerVertex[i0].count++\<close> throws a \<^verbatim>\<open>TypeError\<close> (\<open>None\<close> here) when
  \<^verbatim>\<open>normalsPerVertex[i0]\<close> is \<^verbatim>\<open>undefined\<close>.
\<close>

definition incrementCount :: "NormalData list \<Rightarrow> nat option \<Rightarrow> NormalData list option" where
  "incrementCount normalsPerVertex idx =
     (case idx of
        None \<Rightarrow> None
      | Some i0 \<Rightarrow>
          if i0 < length normalsPerVertex
          then Some (normalsPerVertex[i0 :=
                 (normalsPerVertex ! i0)\<lparr>count := count (normalsPerVertex ! i0) + 1\<rparr>])
          else None)"

text \<open>The first loop over the triangles: counts per vertex and one face normal per triangle.\<close>

function faceNormals_loop ::
  "'a Cartesian3Ops \<Rightarrow> 'a jsarray \<Rightarrow> nat jsarray \<Rightarrow> nat \<Rightarrow> nat \<Rightarrow> NormalData list
   \<Rightarrow> 'a Cartesian3 jsarray \<Rightarrow> error + (NormalData list \<times> 'a Cartesian3 jsarray)" where
  "faceNormals_loop ops vertices indices i j normalsPerVertex normalsPerTriangle =
     (if i < length indices
      then
        (let i0 = jsget indices i; i1 = jsget indices (i + 1); i2 = jsget indices (i + 2);
             v0 = vertexAt vertices i0; v1 = vertexAt vertices i1; v2 = vertexAt vertices i2
         in case incrementCount normalsPerVertex i0 of
              None \<Rightarrow> Inl TypeError
            | Some npv0 \<Rightarrow>
                (case incrementCount npv0 i1 of
                   None \<Rightarrow> Inl TypeError
                 | Some npv1 \<Rightarrow>
                     (case incrementCount npv1 i2 of
                        None \<Rightarrow> Inl TypeError
                      | Some npv2 \<Rightarrow>
                          faceNormals_loop ops vertices indices (i + 3) (j + 1) npv2
                            (jsset normalsPerTriangle j
                               (Some (c3cross ops (c3subtract ops v1 v0)
                                        (c3subtract ops v2 v0)))))))
      else Inr (normalsPerVertex, normalsPerTriangle))"
  by pat_completeness auto
termination
  by (relation "measure (\<lambda>(ops, vertices, indices, i, j, npv, npt). length indices - i)") auto

text \<open>The second loop: the offset of each vertex's bucket in \<^verbatim>\<open>normalIndices\<close>.\<close>

function indexOffsets_loop :: "nat \<Rightarrow> nat \<Rightarrow> nat \<Rightarrow> NormalData list \<Rightarrow> NormalData list" where
  "indexOffsets_loop numVertices i offset normalsPerVertex =
     (if i < numVertices
      then indexOffsets_loop numVertices (i + 1) (offset + count (normalsPerVertex ! i))
             (normalsPerVertex[i :=
                (normalsPerVertex ! i)\<lparr>indexOffset := indexOffset (normalsPerVertex ! i) + offset\<rparr>])
      else normalsPerVertex)"
  by pat_completeness auto
termination
  by (relation "measure (\<lambda>(numVertices, i, offset, npv). numVertices - i)") auto

text \<open>
  The third loop repeats, for each of the three corners of triangle \<open>j\<close>,
  \<^verbatim>\<open>vertexNormalData = normalsPerVertex[indices[..]]; index = vertexNormalData.indexOffset
  + vertexNormalData.currentCount; normalIndices[index] = j; vertexNormalData.currentCount++\<close>.
\<close>

definition recordNormalIndex ::
  "NormalData list \<times> nat jsarray \<Rightarrow> nat option \<Rightarrow> nat \<Rightarrow> (NormalData list \<times> nat jsarray) option" where
  "recordNormalIndex state idx j =
     (case idx of
        None \<Rightarrow> None
      | Some k \<Rightarrow>
          if k < length (fst state)
          then (let vertexNormalData = fst state ! k;
                    index = indexOffset vertexNormalData + currentCount vertexNormalData
                in Some ((fst state)[k := vertexNormalData\<lparr>currentCount :=
                            currentCount vertexNormalData + 1\<rparr>],
                         jsset (snd state) index (Some j)))
          else None)"

function normalIndices_loop ::
  "nat jsarray \<Rightarrow> nat \<Rightarrow> nat \<Rightarrow> NormalData list \<times> nat jsarray
   \<Rightarrow> error + (NormalData list \<times> nat jsarray)" where
  "normalIndices_loop indices i j state =
     (if i < length indices
      then (case recordNormalIndex state (jsget indices i) j of
              None \<Rightarrow> Inl TypeError
            | Some s0 \<Rightarrow>
                (case recordNormalIndex s0 (jsget indices (i + 1)) j of
                   None \<Rightarrow> Inl TypeError
                 | Some s1 \<Rightarrow>
                     (case recordNormalIndex s1 (jsget indices (i + 2)) j of
                        None \<Rightarrow> Inl TypeError
                      | Some s2 \<Rightarrow> normalIndices_loop indices (i + 3) (j + 1) s2)))
      else Inr state)"
  by pat_completeness auto
termination
  by (relation "measure (\<lambda>(indices, i, j, state). length indices - i)") auto

text \<open>
  The inner loop of the last pass adds the face normals of a vertex's bucket to
  \<^verbatim>\<open>normal\<close>. A bucket entry or a face normal that is \<^verbatim>\<open>undefined\<close> makes
  \<^verbatim>\<open>normal.add\<close> read a component of \<^verbatim>\<open>undefined\<close>, a \<^verbatim>\<open>TypeError\<close>.
\<close>

function sumNormals_loop ::
  "'a Cartesian3Ops \<Rightarrow> 'a Cartesian3 jsarray \<Rightarrow> nat jsarray \<Rightarrow> NormalData \<Rightarrow> nat
   \<Rightarrow> 'a Cartesian3 \<Rightarrow> error + 'a Cartesian3" where
  "sumNormals_loop ops normalsPerTriangle normalIndices vertexNormalData j normal =
     (if j < count vertexNormalData
      then (case jsget normalIndices (indexOffset vertexNormalData + j) of
              None \<Rightarrow> Inl TypeError
            | Some t \<Rightarrow>
                (case jsget normalsPerTriangle t of
                   None \<Rightarrow> Inl TypeError
                 | Some faceNormal \<Rightarrow>
                     sumNormals_loop ops normalsPerTriangle normalIndices vertexNormalData
                       (j + 1) (c3add ops normal faceNormal)))
      else Inr normal)"
  by pat_completeness auto
termination
  by (relation "measure (\<lambda>(ops, npt, ni, d, j, normal). count d - j)") auto

definition storeNormal :: "'a jsarray \<Rightarrow> nat \<Rightarrow> 'a Cartesian3 \<Rightarrow> 'a jsarray" where
  "storeNormal normalValues i3 normal =
     (case normal of (x, y, z) \<Rightarrow>
        jsset (jsset (jsset normalValues i3 x) (i3 + 1) y) (i3 + 2) z)"

function vertexNormals_loop ::
  "('a :: {zero, one}) Cartesian3Ops \<Rightarrow> NormalData list \<Rightarrow> 'a Cartesian3 jsarray \<Rightarrow> nat jsarray
   \<Rightarrow> nat \<Rightarrow> nat \<Rightarrow> 'a jsarray \<Rightarrow> error + 'a jsarray" where
  "vertexNormals_loop ops normalsPerVertex normalsPerTriangle normalIndices numVertices i
     normalValues =
     (if i < numVertices
      then
        (let i3 = i * 3; vertexNormalData = normalsPerVertex ! i
         in if count vertexNormalData > 0
            then (case sumNormals_loop ops normalsPerTriangle normalIndices vertexNormalData 0
                         (Some 0, Some 0, Some 0) of
                    Inl e \<Rightarrow> Inl e
                  | Inr normal \<Rightarrow>
                      vertexNormals_loop ops normalsPerVertex normalsPerTriangle normalIndices
                        numVertices (i + 1)
                        (storeNormal normalValues i3 (c3normalize ops normal)))
            else vertexNormals_loop ops normalsPerVertex normalsPerTriangle normalIndices
                   numVertices (i + 1)
                   (storeNormal normalValues i3 (Some 0, Some 0, Some 1)))
      else Inr normalValues)"
  by pat_completeness auto
termination
  by (relation "measure (\<lambda>(ops, npv, npt, ni, numVertices, i, nv). numVertices - i)") auto

text \<open>
  \<^verbatim>\<open>geometry.attributes.normal\<close> is created when absent (a new last entry of the
  bag, with \<^verbatim>\<open>new Array(numVertices * 3)\<close> as values; the constructor of
  \<^verbatim>\<open>GeometryAttribute\<close> is not among the sources and its unset \<^verbatim>\<open>normalize\<close> flag
  is taken as \<open>False\<close>). The normals are stored into the value array of the
  attribute, an ordinary array here. When the attribute exists without values, the
  first store throws. Value arrays are taken as not shared between attributes.
\<close>

fun setAttributeValues ::
  "string \<Rightarrow> 'a jsarray \<Rightarrow> (string \<times> 'a GeometryAttribute) list
   \<Rightarrow> (string \<times> 'a GeometryAttribute) list" where
  "setAttributeValues name vs [] = []"
| "setAttributeValues name vs ((name', attribute) # rest) =
     (if name' = name then (name', attribute\<lparr>values := Some vs\<rparr>) # rest
      else (name', attribute) # setAttributeValues name vs rest)"

definition withNormalAttribute ::
  "nat \<Rightarrow> (string \<times> 'a GeometryAttribute) list \<Rightarrow> (string \<times> 'a GeometryAttribute) list" where
  "withNormalAttribute numVertices attrs =
     (case map_of attrs ''normal'' of
        None \<Rightarrow> attrs @ [(''normal'', \<lparr>componentDatatype = FLOAT, componentsPerAttribute = 3,
                    normalize = False, values = Some (replicate (numVertices * 3) None)\<rparr>)]
      | Some a \<Rightarrow> attrs)"

definition computeNormal ::
  "('a :: {zero, one}) Cartesian3Ops \<Rightarrow> ('a, 'b) Geometry option \<Rightarrow> error + ('a, 'b) Geometry" where
  "computeNormal ops geometry =
     (case geometry of
        None \<Rightarrow> Inl (DeveloperError ''geometry is required.'')
      | Some g \<Rightarrow>
          (case map_of (attributes g) ''position'' of
             None \<Rightarrow> Inl (DeveloperError ''geometry.attributes.position.values is required'')
           | Some position \<Rightarrow>
               (case values position of
                  None \<Rightarrow> Inl (DeveloperError ''geometry.attributes.position.values is required'')
                | Some vertices \<Rightarrow>
                    if componentsPerAttribute position \<noteq> 3 \<or> length vertices mod 3 \<noteq> 0
                    then Inl (DeveloperError
                      ''geometry.attributes.position.values.length must be a multiple of 3'')
                    else
                      (case indexList g of
                         None \<Rightarrow> Inr g
                       | Some indices \<Rightarrow>
                           if primitiveType g \<noteq> TRIANGLES \<or> length indices < 2
                              \<or> length indices mod 3 \<noteq> 0
                           then Inr g
                           else
                             (let numVertices = length vertices div 3;
                                  numIndices = length indices
                              in case faceNormals_loop ops vertices indices 0 0
                                        (replicate numVertices
                                           \<lparr>indexOffset = 0, count = 0, currentCount = 0\<rparr>)
                                        (replicate (numIndices div 3) None) of
                                   Inl e \<Rightarrow> Inl e
                                 | Inr (npv, normalsPerTriangle) \<Rightarrow>
                                     (case normalIndices_loop indices 0 0
                                             (indexOffsets_loop numVertices 0 0 npv,
                                              replicate numIndices None) of
                                        Inl e \<Rightarrow> Inl e
                                      | Inr (normalsPerVertex, normalIndices) \<Rightarrow>
                                          (let attrs = withNormalAttribute numVertices (attributes g)
                                           in case map_of attrs ''normal'' of
                                                None \<Rightarrow> Inl TypeError
                                              | Some normal \<Rightarrow>
                                                  (case values normal of
                                                     None \<Rightarrow>
                                                       if numVertices > 0 then Inl TypeError
                                                       else Inr (g\<lparr>attributes := attrs\<rparr>)
                                                   | Some normalValues \<Rightarrow>
                                                       (case vertexNormals_loop ops normalsPerVertex
                                                               normalsPerTriangle normalIndices
                                                               numVertices 0 normalValues of
                                                          Inl e \<Rightarrow> Inl e
                                                        | Inr nv \<Rightarrow>
                                                            Inr (g\<lparr>attributes :=
                                                              setAttributeValues ''normal'' nv
                                                                attrs\<rparr>))))))))))"

text \<open>
  Modelled from the spec: the vector arithmetic of \<^verbatim>\<open>Cartesian3\<close> (difference,
  cross product, sum, division by the magnitude), over the real numbers. A component
  that is \<^verbatim>\<open>undefined\<close> or not a number is \<open>None\<close>, and so is every result
  computed from it; the zero vector has no direction, and its normalisation gives
  components that are not numbers.
\<close>

definition num2 :: "(real \<Rightarrow> real \<Rightarrow> real) \<Rightarrow> real option \<Rightarrow> real option \<Rightarrow> real option" where
  "num2 f a b = (case (a, b) of (Some x, Some y) \<Rightarrow> Some (f x y) | _ \<Rightarrow> None)"

definition Cartesian3_subtract :: "real Cartesian3 \<Rightarrow> real Cartesian3 \<Rightarrow> real Cartesian3" where
  "Cartesian3_subtract l r =
     (case (l, r) of ((lx, ly, lz), (rx, ry, rz)) \<Rightarrow>
        (num2 (-) lx rx, num2 (-) ly ry, num2 (-) lz rz))"

definition Cartesian3_add :: "real Cartesian3 \<Rightarrow> real Cartesian3 \<Rightarrow> real Cartesian3" where
  "Cartesian3_add l r =
     (case (l, r) of ((lx, ly, lz), (rx, ry, rz)) \<Rightarrow>
        (num2 (+) lx rx, num2 (+) ly ry, num2 (+) lz rz))"

definition Cartesian3_cross :: "real Cartesian3 \<Rightarrow> real Cartesian3 \<Rightarrow> real Cartesian3" where
  "Cartesian3_cross l r =
     (case (l, r) of ((lx, ly, lz), (rx, ry, rz)) \<Rightarrow>
        (num2 (-) (num2 (*) ly rz) (num2 (*) lz ry),
         num2 (-) (num2 (*) lz rx) (num2 (*) lx rz),
         num2 (-) (num2 (*) lx ry) (num2 (*) ly rx)))"

definition Cartesian3_normalize :: "real Cartesian3 \<Rightarrow> real Cartesian3" where
  "Cartesian3_normalize v =
     (case v of
        (Some x, Some y, Some z) \<Rightarrow>
          (let magnitude = sqrt (x * x + y * y + z * z)
           in if magnitude = 0 then (None, None, None)
              else (Some (x / magnitude), Some (y / magnitude), Some (z / magnitude)))
      | _ \<Rightarrow> (None, None, None))"

definition realCartesian3 :: "real Cartesian3Ops" where
  "realCartesian3 =
     \<lparr>c3subtract = Cartesian3_subtract, c3cross = Cartesian3_cross,
      c3add = Cartesian3_add, c3normalize = Cartesian3_normalize\<rparr>"

text \<open>The spec's triangle \<open>(0,0,0), (1,0,0), (0,1,0)\<close> with indices \<open>[0, 1, 2]\<close>.\<close>

definition triangleGeometry :: "(real, unit) Geometry" where
  "triangleGeometry =
     \<lparr>attributes = [(''position'', \<lparr>componentDatatype = FLOAT,
          componentsPerAttribute = 3, normalize = False,
          values = Some [Some 0, Some 0, Some 0, Some 1, Some 0, Some 0,
                         Some 0, Some 1, Some 0]\<rparr>)],
      indexList = Some [Some 0, Some 1, Some 2],
      primitiveType = TRIANGLES, boundingSphere = None\<rparr>"

section \<open>Vocabulary for the claims about computeNormal\<close>

text \<open>
  The corners of \<open>v\<close> are the positions of the index list that hold \<open>v\<close>; the
  triangle of position \<open>q\<close> is \<open>q div 3\<close>. A triangle is adjacent to \<open>v\<close> once
  for each of its corners that is \<open>v\<close>.
\<close>

definition corners :: "nat jsarray \<Rightarrow> nat \<Rightarrow> nat list" where
  "corners indices v = filter (\<lambda>q. indices ! q = Some v) [0..<length indices]"

definition adjacentTriangles :: "nat jsarray \<Rightarrow> nat \<Rightarrow> nat list" where
  "adjacentTriangles indices v = map (\<lambda>q. q div 3) (corners indices v)"

text \<open>
  The face normal of triangle \<open>t\<close> with corners \<open>v0, v1, v2\<close> is the cross product
  \<open>(v1 - v0) \<times> (v2 - v0)\<close>, not normalised. A vertex without adjacent triangle gets
  \<open>(0, 0, 1)\<close>, any other the normalised sum of the face normals of its adjacent
  triangles.
\<close>

definition faceNormal :: "'a Cartesian3Ops \<Rightarrow> 'a jsarray \<Rightarrow> nat jsarray \<Rightarrow> nat \<Rightarrow> 'a Cartesian3" where
  "faceNormal ops vertices indices t =
     (let v0 = vertexAt vertices (jsget indices (3 * t));
          v1 = vertexAt vertices (jsget indices (3 * t + 1));
          v2 = vertexAt vertices (jsget indices (3 * t + 2))
      in c3cross ops (c3subtract ops v1 v0) (c3subtract ops v2 v0))"

definition vertexNormal ::
  "('a :: {zero, one}) Cartesian3Ops \<Rightarrow> 'a jsarray \<Rightarrow> nat jsarray \<Rightarrow> nat \<Rightarrow> 'a Cartesian3" where
  "vertexNormal ops vertices indices v =
     (if adjacentTriangles indices v = [] then (Some 0, Some 0, Some 1)
      else c3normalize ops
             (foldl (c3add ops) (Some 0, Some 0, Some 0)
                (map (faceNormal ops vertices indices) (adjacentTriangles indices v))))"

definition normalAt :: "'a jsarray \<Rightarrow> nat \<Rightarrow> 'a Cartesian3" where
  "normalAt normalValues v =
     (jsget normalValues (3 * v), jsget normalValues (3 * v + 1), jsget normalValues (3 * v + 2))"

text \<open>
  The position attribute is missing, has no values, has a component count other than
  3, or a number of values that is not a multiple of 3.
\<close>

definition invalidPosition :: "('a, 'b) Geometry \<Rightarrow> bool" where
  "invalidPosition g =
     (case map_of (attributes g) ''position'' of
        None \<Rightarrow> True
      | Some position \<Rightarrow>
          (case values position of
             None \<Rightarrow> True
           | Some vs \<Rightarrow> componentsPerAttribute position \<noteq> 3 \<or> length vs mod 3 \<noteq> 0))"

text \<open>
  The states of the loops of \<^verbatim>\<open>computeNormal\<close>, for the proofs: the corners below
  position \<open>p\<close>, the start of a vertex's bucket, \<^verbatim>\<open>normalsPerVertex\<close> after the
  counting, offset and filling passes have reached \<open>p\<close>, \<^verbatim>\<open>normalsPerTriangle\<close>
  after \<open>k\<close> triangles, and \<^verbatim>\<open>normalIndices\<close> after \<open>p\<close> corners.
\<close>

definition cornersBelow :: "nat jsarray \<Rightarrow> nat \<Rightarrow> nat \<Rightarrow> nat list" where
  "cornersBelow indices p v = filter (\<lambda>q. indices ! q = Some v) [0..<p]"

definition bucketOffset :: "nat jsarray \<Rightarrow> nat \<Rightarrow> nat" where
  "bucketOffset indices v = sum_list (map (\<lambda>u. length (corners indices u)) [0..<v])"

definition countedData :: "nat jsarray \<Rightarrow> nat \<Rightarrow> nat \<Rightarrow> NormalData list" where
  "countedData indices n p =
     map (\<lambda>v. \<lparr>indexOffset = 0, count = length (cornersBelow indices p v), currentCount = 0\<rparr>)
       [0..<n]"

definition facesDone ::
  "'a Cartesian3Ops \<Rightarrow> 'a jsarray \<Rightarrow> nat jsarray \<Rightarrow> nat \<Rightarrow> nat \<Rightarrow> 'a Cartesian3 jsarray" where
  "facesDone ops vertices indices T k =
     map (\<lambda>t. if t < k then Some (faceNormal ops vertices indices t) else None) [0..<T]"

definition offsetData :: "nat jsarray \<Rightarrow> nat \<Rightarrow> nat \<Rightarrow> NormalData list" where
  "offsetData indices n i =
     map (\<lambda>v. \<lparr>indexOffset = (if v < i then bucketOffset indices v else 0),
               count = length (corners indices v), currentCount = 0\<rparr>) [0..<n]"

definition filledData :: "nat jsarray \<Rightarrow> nat \<Rightarrow> nat \<Rightarrow> NormalData list" where
  "filledData indices n p =
     map (\<lambda>v. \<lparr>indexOffset = bucketOffset indices v, count = length (corners indices v),
               currentCount = length (cornersBelow indices p v)\<rparr>) [0..<n]"

fun placed :: "nat jsarray \<Rightarrow> nat \<Rightarrow> nat jsarray" where
  "placed indices 0 = replicate (length indices) None"
| "placed indices (Suc p) =
     (case indices ! p of
        None \<Rightarrow> placed indices p
      | Some x \<Rightarrow>
          jsset (placed indices p)
            (bucketOffset indices x + length (cornersBelow indices p x)) (Some (p div 3)))"

definition linesGeometry :: "(real, unit) Geometry" where
  "linesGeometry =
     \<lparr>attributes = [], indexList = None, primitiveType = LINES, boundingSphere = None\<rparr>"

definition linesWithPosition :: "(real, unit) Geometry" where
  "linesWithPosition =
     \<lparr>attributes = [(''position'', \<lparr>componentDatatype = FLOAT,
          componentsPerAttribute = 3, normalize = False,
          values = Some [Some 0, Some 0, Some 0, Some 1, Some 0, Some 0]\<rparr>)],
      indexList = Some [Some 0, Some 1], primitiveType = LINES, boundingSphere = None\<rparr>"

section \<open>fitToUnsignedShortIndices\<close>

text \<open>
  \<^verbatim>\<open>copyAttributesDescriptions\<close> keeps the attributes that have values, each with an
  empty value array. The constructor of \<^verbatim>\<open>GeometryAttribute\<close> is not among the
  sources; it is taken to store the four fields it is given.
\<close>

fun copyAttributesDescriptions ::
  "(string \<times> 'a GeometryAttribute) list \<Rightarrow> (string \<times> 'a GeometryAttribute) list" where
  "copyAttributesDescriptions [] = []"
| "copyAttributesDescriptions ((name, attr) # rest) =
     (case values attr of
        None \<Rightarrow> copyAttributesDescriptions rest
      | Some vs \<Rightarrow>
          (name, \<lparr>componentDatatype = componentDatatype attr,
                  componentsPerAttribute = componentsPerAttribute attr,
                  normalize = normalize attr, values = Some []\<rparr>)
          # copyAttributesDescriptions rest)"

text \<open>
  \<^verbatim>\<open>destinationAttributes[attribute].values.push(..)\<close>, once for each component of
  the vertex: the components are appended to the value array of the destination
  attribute of that name. A missing destination attribute, or one without values, is a
  \<^verbatim>\<open>TypeError\<close> (\<open>None\<close>).
\<close>

fun pushComponents ::
  "string \<Rightarrow> 'a jsarray \<Rightarrow> (string \<times> 'a GeometryAttribute) list
   \<Rightarrow> (string \<times> 'a GeometryAttribute) list option" where
  "pushComponents name components [] = None"
| "pushComponents name components ((name', attr) # rest) =
     (if name' = name
      then (case values attr of
              None \<Rightarrow> None
            | Some vs \<Rightarrow> Some ((name', attr\<lparr>values := Some (vs @ components)\<rparr>) # rest))
      else map_option (\<lambda>rest'. (name', attr) # rest') (pushComponents name components rest))"

text \<open>
  The components \<^verbatim>\<open>attr.values[(index * attr.componentsPerAttribute) + k]\<close> of a
  vertex. For an index that is \<^verbatim>\<open>undefined\<close> the key is not a number and every read
  gives \<^verbatim>\<open>undefined\<close>.
\<close>

definition vertexComponents :: "'a GeometryAttribute \<Rightarrow> 'a jsarray \<Rightarrow> nat option \<Rightarrow> 'a jsarray" where
  "vertexComponents attr vs index =
     map (\<lambda>k. case index of
                 None \<Rightarrow> None
               | Some i \<Rightarrow> jsget vs (i * componentsPerAttribute attr + k))
       [0..<componentsPerAttribute attr]"

fun copyVertex ::
  "(string \<times> 'a GeometryAttribute) list \<Rightarrow> (string \<times> 'a GeometryAttribute) list \<Rightarrow> nat option
   \<Rightarrow> error + (string \<times> 'a GeometryAttribute) list" where
  "copyVertex destinationAttributes [] index = Inr destinationAttributes"
| "copyVertex destinationAttributes ((name, attr) # rest) index =
     (case values attr of
        None \<Rightarrow> copyVertex destinationAttributes rest index
      | Some vs \<Rightarrow>
          (case pushComponents name (vertexComponents attr vs index) destinationAttributes of
             None \<Rightarrow> Inl TypeError
           | Some destinationAttributes' \<Rightarrow> copyVertex destinationAttributes' rest index))"

text \<open>
  The state of the splitting loop. \<^verbatim>\<open>oldToNewIndex\<close> is an array used as a
  dictionary from the old index (a number, or \<^verbatim>\<open>undefined\<close> when the index list
  ends inside a primitive) to the new one.
\<close>

record ('a, 'b) SplitState =
  oldToNewIndex :: "nat option \<Rightarrow> nat option"
  newIndices :: "nat list"
  currentIndex :: nat
  newAttributes :: "(string \<times> 'a GeometryAttribute) list"
  geometries :: "('a, 'b) Geometry list"

text \<open>
  The inner loop over the indices \<^verbatim>\<open>originalIndices[j + k]\<close> of one primitive, given
  as the list of these entries.
\<close>

fun remapPrimitive ::
  "(string \<times> 'a GeometryAttribute) list \<Rightarrow> nat option list \<Rightarrow> ('a, 'b) SplitState
   \<Rightarrow> error + ('a, 'b) SplitState" where
  "remapPrimitive attrs [] st = Inr st"
| "remapPrimitive attrs (x # xs) st =
     (case oldToNewIndex st x of
        Some i \<Rightarrow> remapPrimitive attrs xs (st\<lparr>newIndices := newIndices st @ [i]\<rparr>)
      | None \<Rightarrow>
          (case copyVertex (newAttributes st) attrs x of
             Inl e \<Rightarrow> Inl e
           | Inr newAttributes' \<Rightarrow>
               remapPrimitive attrs xs
                 (st\<lparr>oldToNewIndex := (oldToNewIndex st)(x \<mapsto> currentIndex st),
                      newIndices := newIndices st @ [currentIndex st],
                      currentIndex := currentIndex st + 1,
                      newAttributes := newAttributes'\<rparr>)))"

text \<open>
  \<^verbatim>\<open>new Geometry({attributes, indexList, primitiveType})\<close>: the constructor is not
  among the sources; the bounding sphere, which is not given, is \<^verbatim>\<open>undefined\<close>.
\<close>

definition sealGeometry :: "PrimitiveType \<Rightarrow> ('a, 'b) SplitState \<Rightarrow> ('a, 'b) Geometry" where
  "sealGeometry pt st =
     \<lparr>attributes = newAttributes st, indexList = Some (map Some (newIndices st)),
      primitiveType = pt, boundingSphere = None\<rparr>"

text \<open>
  The outer loop over the primitives. \<^verbatim>\<open>indicesPerPrimitive\<close> is 3, 2 or 1 in every
  call; the test \<open>0 < indicesPerPrimitive\<close> is there for the termination of the
  model's function only.
\<close>

function splitPrimitives_loop ::
  "nat \<Rightarrow> nat \<Rightarrow> ('a, 'b) Geometry \<Rightarrow> nat jsarray \<Rightarrow> nat \<Rightarrow> ('a, 'b) SplitState
   \<Rightarrow> error + ('a, 'b) SplitState" where
  "splitPrimitives_loop sixtyFourK indicesPerPrimitive g originalIndices j st =
     (if j < length originalIndices \<and> 0 < indicesPerPrimitive
      then
        (case remapPrimitive (attributes g)
                (map (\<lambda>k. jsget originalIndices (j + k)) [0..<indicesPerPrimitive]) st of
           Inl e \<Rightarrow> Inl e
         | Inr st' \<Rightarrow>
             splitPrimitives_loop sixtyFourK indicesPerPrimitive g originalIndices
               (j + indicesPerPrimitive)
               (if currentIndex st' + indicesPerPrimitive > sixtyFourK
                then st'\<lparr>geometries := geometries st' @ [sealGeometry (primitiveType g) st'],
                         oldToNewIndex := Map.empty, newIndices := [], currentIndex := 0,
                         newAttributes := copyAttributesDescriptions (attributes g)\<rparr>
                else st'))
      else Inr st)"
  by pat_completeness auto
termination
  by (relation "measure (\<lambda>(sixtyFourK, indicesPerPrimitive, g, originalIndices, j, st).
        length originalIndices - j)") auto

definition indicesPerPrimitive :: "PrimitiveType \<Rightarrow> nat" where
  "indicesPerPrimitive pt =
     (if pt = TRIANGLES then 3 else if pt = LINES then 2 else if pt = POINTS then 1 else 0)"

text \<open>
  \<^verbatim>\<open>fitToUnsignedShortIndices\<close>. When the geometry has an index list its primitive
  type is \<^verbatim>\<open>TRIANGLES\<close>, \<^verbatim>\<open>LINES\<close> or \<^verbatim>\<open>POINTS\<close> past the first check, so that
  \<^verbatim>\<open>indicesPerPrimitive\<close> is assigned where it is used.
\<close>

definition splitGeometry ::
  "nat \<Rightarrow> ('a, 'b) Geometry \<Rightarrow> nat jsarray \<Rightarrow> error + ('a, 'b) Geometry list" where
  "splitGeometry sixtyFourK g originalIndices =
     (case splitPrimitives_loop sixtyFourK (indicesPerPrimitive (primitiveType g)) g
             originalIndices 0
             \<lparr>oldToNewIndex = Map.empty, newIndices = [], currentIndex = 0,
              newAttributes = copyAttributesDescriptions (attributes g), geometries = []\<rparr> of
        Inl e \<Rightarrow> Inl e
      | Inr st \<Rightarrow>
          Inr (if newIndices st \<noteq> []
               then geometries st @ [sealGeometry (primitiveType g) st]
               else geometries st))"

definition fitToUnsignedShortIndices ::
  "('a, 'b) Geometry option \<Rightarrow> error + ('a, 'b) Geometry list" where
  "fitToUnsignedShortIndices geometry =
     (case geometry of
        None \<Rightarrow> Inl (DeveloperError ''geometry is required.'')
      | Some g \<Rightarrow>
          if indexList g \<noteq> None \<and> primitiveType g \<noteq> TRIANGLES \<and> primitiveType g \<noteq> LINES
             \<and> primitiveType g \<noteq> POINTS
          then Inl (DeveloperError
            ''geometry.primitiveType must equal to PrimitiveType.TRIANGLES, PrimitiveType.LINES, or PrimitiveType.POINTS.'')
          else
            (case computeNumberOfVertices g of
               Inl e \<Rightarrow> Inl e
             | Inr numberOfVertices \<Rightarrow>
                 (case indexList g of
                    Some originalIndices \<Rightarrow>
                      if numberOfVertices > 64 * 1024
                      then splitGeometry (64 * 1024) g originalIndices
                      else Inr [g]
                  | None \<Rightarrow> Inr [g])))"

text \<open>A mesh of 65538 vertices, each referenced once by 21846 triangles.\<close>

definition largeGeometry :: "(int, unit) Geometry" where
  "largeGeometry =
     \<lparr>attributes = [(''position'', \<lparr>componentDatatype = FLOAT,
          componentsPerAttribute = 1, normalize = False,
          values = Some (replicate 65538 (Some 0))\<rparr>)],
      indexList = Some (map Some [0..<65538]),
      primitiveType = TRIANGLES, boundingSphere = None\<rparr>"

text \<open>
  For the proofs about the splitting loop: a destination attribute of that name exists
  and has a value array; and the invariant of the loop's state. The dictionary holds
  \<^verbatim>\<open>currentIndex\<close> keys, every new index is below \<^verbatim>\<open>currentIndex\<close>, and the
  geometries pushed so far have all their indices below the limit.
\<close>

definition attributeReady :: "(string \<times> 'a GeometryAttribute) list \<Rightarrow> string \<Rightarrow> bool" where
  "attributeReady dst name \<longleftrightarrow> (\<exists>b. map_of dst name = Some b \<and> values b \<noteq> None)"

definition splitInv ::
  "nat \<Rightarrow> (string \<times> 'a GeometryAttribute) list \<Rightarrow> ('a, 'b) SplitState \<Rightarrow> bool" where
  "splitInv K attrs st \<longleftrightarrow>
     finite (dom (oldToNewIndex st))
     \<and> card (dom (oldToNewIndex st)) = currentIndex st
     \<and> (\<forall>x i. oldToNewIndex st x = Some i \<longrightarrow> i < currentIndex st)
     \<and> (\<forall>i\<in>set (newIndices st). i < currentIndex st)
     \<and> (0 < currentIndex st \<longrightarrow> newIndices st \<noteq> [])
     \<and> (\<forall>na\<in>set attrs. values (snd na) \<noteq> None \<longrightarrow> attributeReady (newAttributes st) (fst na))
     \<and> (\<forall>h\<in>set (geometries st).
           \<exists>idx. indexList h = Some (map Some idx) \<and> (\<forall>i\<in>set idx. i < K))"

section \<open>combine\<close>

record ('a, 'b, 'm) GeometryInstance =
  geometry :: "('a, 'b) Geometry"
  modelMatrix :: 'm

text \<open>
  An object used as a dictionary is an association list in insertion order;
  \<^verbatim>\<open>dictionary[key] = value\<close> replaces the value of a key that is present and appends
  a key that is new.
\<close>

fun setProperty :: "'k \<Rightarrow> 'v \<Rightarrow> ('k \<times> 'v) list \<Rightarrow> ('k \<times> 'v) list" where
  "setProperty k v [] = [(k, v)]"
| "setProperty k v ((k', v') # rest) =
     (if k' = k then (k, v) # rest else (k', v') # setProperty k v rest)"

text \<open>
  Modelled from the spec: \<^verbatim>\<open>ComponentDatatype.createTypedArray\<close> is not among the
  sources. The spec allocates one flat buffer per surviving attribute, sized to the sum
  of the per-instance lengths. A typed array has a fixed length and starts with zeros;
  a store past its end is dropped, which is what \<open>xs[k := v]\<close> does. The values
  stored are taken to be of the attribute's component datatype, so that the store keeps
  them as they are.
\<close>

definition createTypedArray :: "nat \<Rightarrow> ('a :: zero) jsarray" where
  "createTypedArray numberOfComponents = replicate numberOfComponents (Some 0)"

text \<open>
  \<^verbatim>\<open>findAttributesInAllGeometries\<close>: the inner loop over the other instances gives
  \<open>None\<close> when the attribute is missing or differs in shape, else the total number of
  components. \<^verbatim>\<open>attribute.values.length\<close> throws a \<^verbatim>\<open>TypeError\<close> when
  \<^verbatim>\<open>values\<close> is \<^verbatim>\<open>undefined\<close>.
\<close>

fun otherAttributes_loop ::
  "string \<Rightarrow> 'a GeometryAttribute \<Rightarrow> ('a, 'b, 'm) GeometryInstance list \<Rightarrow> nat
   \<Rightarrow> error + nat option" where
  "otherAttributes_loop name attribute [] numberOfComponents = Inr (Some numberOfComponents)"
| "otherAttributes_loop name attribute (instance # rest) numberOfComponents =
     (case map_of (attributes (geometry instance)) name of
        None \<Rightarrow> Inr None
      | Some otherAttribute \<Rightarrow>
          if componentDatatype attribute \<noteq> componentDatatype otherAttribute
             \<or> componentsPerAttribute attribute \<noteq> componentsPerAttribute otherAttribute
             \<or> normalize attribute \<noteq> normalize otherAttribute
          then Inr None
          else (case values otherAttribute of
                  None \<Rightarrow> Inl TypeError
                | Some vs \<Rightarrow>
                    otherAttributes_loop name attribute rest (numberOfComponents + length vs)))"

fun findAttributes_loop ::
  "(string \<times> ('a :: zero) GeometryAttribute) list \<Rightarrow> ('a, 'b, 'm) GeometryInstance list
   \<Rightarrow> error + (string \<times> 'a GeometryAttribute) list" where
  "findAttributes_loop [] others = Inr []"
| "findAttributes_loop ((name, attribute) # rest) others =
     (case values attribute of
        None \<Rightarrow> Inl TypeError
      | Some vs \<Rightarrow>
          (case otherAttributes_loop name attribute others (length vs) of
             Inl e \<Rightarrow> Inl e
           | Inr inAllGeometries \<Rightarrow>
               (case findAttributes_loop rest others of
                  Inl e \<Rightarrow> Inl e
                | Inr found \<Rightarrow>
                    Inr (case inAllGeometries of
                           None \<Rightarrow> found
                         | Some numberOfComponents \<Rightarrow>
                             (name, \<lparr>componentDatatype = componentDatatype attribute,
                                     componentsPerAttribute = componentsPerAttribute attribute,
                                     normalize = normalize attribute,
                                     values = Some (createTypedArray numberOfComponents)\<rparr>)
                             # found))))"

definition findAttributesInAllGeometries ::
  "(('a :: zero), 'b, 'm) GeometryInstance list \<Rightarrow> error + (string \<times> 'a GeometryAttribute) list" where
  "findAttributesInAllGeometries instances =
     (case instances of
        [] \<Rightarrow> Inl TypeError
      | instance0 # others \<Rightarrow> findAttributes_loop (attributes (geometry instance0)) others)"

text \<open>The copy loop \<^verbatim>\<open>values[k++] = sourceValues[j]\<close> over one source array.\<close>

fun copyValues :: "'a jsarray \<Rightarrow> 'a jsarray \<Rightarrow> nat \<Rightarrow> 'a jsarray \<times> nat" where
  "copyValues [] vs k = (vs, k)"
| "copyValues (v # sourceValues) vs k = copyValues sourceValues (vs[k := v]) (k + 1)"

fun combineValues_loop ::
  "string \<Rightarrow> ('a, 'b, 'm) GeometryInstance list \<Rightarrow> 'a jsarray \<Rightarrow> nat \<Rightarrow> error + 'a jsarray" where
  "combineValues_loop name [] vs k = Inr vs"
| "combineValues_loop name (instance # rest) vs k =
     (case map_of (attributes (geometry instance)) name of
        None \<Rightarrow> Inl TypeError
      | Some attribute \<Rightarrow>
          (case values attribute of
             None \<Rightarrow> Inl TypeError
           | Some sourceValues \<Rightarrow>
               (case copyValues sourceValues vs k of
                  (vs', k') \<Rightarrow> combineValues_loop name rest vs' k')))"

fun combineAttributes_loop ::
  "(string \<times> 'a GeometryAttribute) list \<Rightarrow> ('a, 'b, 'm) GeometryInstance list
   \<Rightarrow> error + (string \<times> 'a GeometryAttribute) list" where
  "combineAttributes_loop [] instances = Inr []"
| "combineAttributes_loop ((name, attribute) # rest) instances =
     (case values attribute of
        None \<Rightarrow> Inl TypeError
      | Some vs \<Rightarrow>
          (case combineValues_loop name instances vs 0 of
             Inl e \<Rightarrow> Inl e
           | Inr vs' \<Rightarrow>
               (case combineAttributes_loop rest instances of
                  Inl e \<Rightarrow> Inl e
                | Inr combined \<Rightarrow> Inr ((name, attribute\<lparr>values := Some vs'\<rparr>) # combined))))"

text \<open>
  The first index loop adds up \<^verbatim>\<open>indices.length\<close> in the dictionary
  \<^verbatim>\<open>numberOfIndices\<close>, under the key \<^verbatim>\<open>primitiveType\<close>, which is the primitive type
  of the first instance throughout.
\<close>

fun numberOfIndices_loop ::
  "PrimitiveType \<Rightarrow> ('a, 'b, 'm) GeometryInstance list \<Rightarrow> (PrimitiveType \<times> nat) list
   \<Rightarrow> error + (PrimitiveType \<times> nat) list" where
  "numberOfIndices_loop primitiveType0 [] numberOfIndices = Inr numberOfIndices"
| "numberOfIndices_loop primitiveType0 (instance # rest) numberOfIndices =
     (case indexList (geometry instance) of
        None \<Rightarrow> Inl TypeError
      | Some indices \<Rightarrow>
          numberOfIndices_loop primitiveType0 rest
            (setProperty primitiveType0
               (case map_of numberOfIndices primitiveType0 of
                  None \<Rightarrow> length indices
                | Some n \<Rightarrow> n + length indices)
               numberOfIndices))"

text \<open>
  The index buffers are typed arrays of unsigned 16-bit or 32-bit integers. A store
  converts the number: a value that is not a finite number becomes 0, any other is
  truncated and reduced modulo \<open>2 ^ 16\<close> or \<open>2 ^ 32\<close>. The numbers of the index
  computation are non-negative rationals, or \<open>None\<close> for a value that is not a finite
  number (\<^verbatim>\<open>undefined\<close> in arithmetic, a division by zero).
\<close>

datatype IndexArray = Uint16Array "nat list" | Uint32Array "nat list"

fun indexArrayElements :: "IndexArray \<Rightarrow> nat list" where
  "indexArrayElements (Uint16Array xs) = xs"
| "indexArrayElements (Uint32Array xs) = xs"

definition toUint :: "nat \<Rightarrow> rat option \<Rightarrow> nat" where
  "toUint bits x = (case x of None \<Rightarrow> 0 | Some q \<Rightarrow> nat \<lfloor>q\<rfloor> mod 2 ^ bits)"

fun indexArraySet :: "IndexArray \<Rightarrow> nat \<Rightarrow> rat option \<Rightarrow> IndexArray" where
  "indexArraySet (Uint16Array xs) n x = Uint16Array (xs[n := toUint 16 x])"
| "indexArraySet (Uint32Array xs) n x = Uint32Array (xs[n := toUint 32 x])"

definition jsadd :: "rat option \<Rightarrow> rat option \<Rightarrow> rat option" where
  "jsadd a b = (case (a, b) of (Some x, Some y) \<Rightarrow> Some (x + y) | _ \<Rightarrow> None)"

definition jsdivide :: "nat \<Rightarrow> nat \<Rightarrow> rat option" where
  "jsdivide a b = (if b = 0 then None else Some (of_nat a / of_nat b))"

definition allocateIndexArray :: "nat \<Rightarrow> IndexArray" where
  "allocateIndexArray num =
     (if num < 60 * 1024 then Uint16Array (replicate num 0) else Uint32Array (replicate num 0))"

text \<open>The store loop \<^verbatim>\<open>destValues[n++] = offset + sourceValues[k]\<close>.\<close>

fun storeIndices :: "nat jsarray \<Rightarrow> rat option \<Rightarrow> IndexArray \<Rightarrow> nat \<Rightarrow> IndexArray \<times> nat" where
  "storeIndices [] offset destValues n = (destValues, n)"
| "storeIndices (v # sourceValues) offset destValues n =
     storeIndices sourceValues offset
       (indexArraySet destValues n (jsadd offset (map_option of_nat v))) (n + 1)"

text \<open>
  The last index loop. Each entry of \<^verbatim>\<open>indexListsByPrimitiveType\<close> is the pair of
  the buffer and \<^verbatim>\<open>currentOffset\<close>. After an instance, \<^verbatim>\<open>offset\<close> grows by the
  vertex count of the first attribute of that instance's own attribute bag.
\<close>

fun combineIndices_loop ::
  "PrimitiveType \<Rightarrow> ('a, 'b, 'm) GeometryInstance list \<Rightarrow> rat option
   \<Rightarrow> (PrimitiveType \<times> IndexArray \<times> nat) list
   \<Rightarrow> error + (PrimitiveType \<times> IndexArray \<times> nat) list" where
  "combineIndices_loop primitiveType0 [] offset indexListsByPrimitiveType =
     Inr indexListsByPrimitiveType"
| "combineIndices_loop primitiveType0 (instance # rest) offset indexListsByPrimitiveType =
     (case indexList (geometry instance) of
        None \<Rightarrow> Inl TypeError
      | Some sourceValues \<Rightarrow>
          (case map_of indexListsByPrimitiveType primitiveType0 of
             None \<Rightarrow> Inl TypeError
           | Some (destValues, n) \<Rightarrow>
               (case storeIndices sourceValues offset destValues n of
                  (destValues', n') \<Rightarrow>
                    (case attributes (geometry instance) of
                       [] \<Rightarrow>
                         combineIndices_loop primitiveType0 rest offset
                           (setProperty primitiveType0 (destValues', n') indexListsByPrimitiveType)
                     | (name, attribute) # others \<Rightarrow>
                         (case values attribute of
                            None \<Rightarrow> Inl TypeError
                          | Some vs \<Rightarrow>
                              combineIndices_loop primitiveType0 rest
                                (jsadd offset
                                   (jsdivide (length vs) (componentsPerAttribute attribute)))
                                (setProperty primitiveType0 (destValues', n')
                                   indexListsByPrimitiveType))))))"

text \<open>
  \<^verbatim>\<open>BoundingSphere.union\<close> is not among the sources and is a parameter. An instance
  without bounding sphere ends the loop with no bounding sphere.
\<close>

fun boundingSphere_loop ::
  "('b \<Rightarrow> 'b \<Rightarrow> 'b) \<Rightarrow> ('a, 'b, 'm) GeometryInstance list \<Rightarrow> 'b option \<Rightarrow> 'b option" where
  "boundingSphere_loop unionSpheres [] boundingSphere0 = boundingSphere0"
| "boundingSphere_loop unionSpheres (instance # rest) boundingSphere0 =
     (case boundingSphere (geometry instance) of
        None \<Rightarrow> None
      | Some bs \<Rightarrow>
          boundingSphere_loop unionSpheres rest
            (Some (case boundingSphere0 of None \<Rightarrow> bs | Some b \<Rightarrow> unionSpheres b bs)))"

text \<open>
  \<^verbatim>\<open>combine\<close>. \<^verbatim>\<open>Matrix4.equals\<close> is not among the sources; the spec asks for
  identical transforms, which is equality of the matrices. \<^verbatim>\<open>combinedIndexLists\<close>
  holds the buffers in the order of their allocation; they are the same array objects
  as the buffers of \<^verbatim>\<open>indexListsByPrimitiveType\<close>, so \<^verbatim>\<open>combinedIndexLists[0]\<close> is
  read from there, under the first key, after the stores.
\<close>

definition combine ::
  "('b \<Rightarrow> 'b \<Rightarrow> 'b) \<Rightarrow> (('a :: zero), 'b, 'm) GeometryInstance list option
   \<Rightarrow> error + ('a, 'b) Geometry" where
  "combine unionSpheres instances =
     (case instances of
        None \<Rightarrow> Inl (DeveloperError
                 ''instances is required and must have length greater than zero.'')
      | Some [] \<Rightarrow> Inl (DeveloperError
                 ''instances is required and must have length greater than zero.'')
      | Some [instance] \<Rightarrow> Inr (geometry instance)
      | Some (instance0 # others) \<Rightarrow>
          if list_ex (\<lambda>instance. modelMatrix instance \<noteq> modelMatrix instance0) others
          then Inl (DeveloperError ''All instances must have the same modelMatrix.'')
          else
            (case findAttributesInAllGeometries (instance0 # others) of
               Inl e \<Rightarrow> Inl e
             | Inr found \<Rightarrow>
                 (case combineAttributes_loop found (instance0 # others) of
                    Inl e \<Rightarrow> Inl e
                  | Inr attrs \<Rightarrow>
                      (let primitiveType0 = primitiveType (geometry instance0)
                       in case numberOfIndices_loop primitiveType0 (instance0 # others) [] of
                            Inl e \<Rightarrow> Inl e
                          | Inr numberOfIndices \<Rightarrow>
                              (case combineIndices_loop primitiveType0 (instance0 # others)
                                      (Some 0)
                                      (map (\<lambda>(name, num). (name, allocateIndexArray num, 0))
                                         numberOfIndices) of
                                 Inl e \<Rightarrow> Inl e
                               | Inr indexListsByPrimitiveType \<Rightarrow>
                                   Inr \<lparr>attributes = attrs,
                                        indexList =
                                          (case map fst numberOfIndices of
                                             [] \<Rightarrow> None
                                           | name # names \<Rightarrow>
                                               map_option
                                                 (\<lambda>(destValues, n).
                                                    map Some (indexArrayElements destValues))
                                                 (map_of indexListsByPrimitiveType name)),
                                        primitiveType = primitiveType0,
                                        boundingSphere =
                                          boundingSphere_loop unionSpheres (instance0 # others)
                                            None\<rparr>)))))"

text \<open>
  Two instances with the same transform: a triangle over three vertices and a line
  over two vertices.
\<close>

definition triangleInstance :: "(int, unit, nat) GeometryInstance" where
  "triangleInstance =
     \<lparr>geometry = \<lparr>attributes = [(''position'', \<lparr>componentDatatype = FLOAT,
          componentsPerAttribute = 1, normalize = False,
          values = Some [Some 10, Some 11, Some 12]\<rparr>)],
        indexList = Some [Some 0, Some 1, Some 2],
        primitiveType = TRIANGLES, boundingSphere = None\<rparr>,
      modelMatrix = 0\<rparr>"

definition lineInstance :: "(int, unit, nat) GeometryInstance" where
  "lineInstance =
     \<lparr>geometry = \<lparr>attributes = [(''position'', \<lparr>componentDatatype = FLOAT,
          componentsPerAttribute = 1, normalize = False,
          values = Some [Some 20, Some 21]\<rparr>)],
        indexList = Some [Some 0, Some 1],
        primitiveType = LINES, boundingSphere = None\<rparr>,
      modelMatrix = 0\<rparr>"

text \<open>
  The modulus of the index buffer that \<^verbatim>\<open>combine\<close> allocates for \<open>num\<close> indices.
\<close>

definition indexModulus :: "nat \<Rightarrow> nat" where
  "indexModulus num = (if num < 60 * 1024 then 2 ^ 16 else 2 ^ 32)"

text \<open>
  Two \<^verbatim>\<open>TRIANGLES\<close> instances with the same transform and one \<^verbatim>\<open>position\<close>
  attribute of two components each, over 3 and over 4 vertices.
\<close>

definition instance3 :: "(int, unit, nat) GeometryInstance" where
  "instance3 =
     \<lparr>geometry = \<lparr>attributes = [(''position'', \<lparr>componentDatatype = FLOAT,
          componentsPerAttribute = 2, normalize = False,
          values = Some [Some 10, Some 11, Some 20, Some 21, Some 30, Some 31]\<rparr>)],
        indexList = Some (map Some [0, 1, 2]),
        primitiveType = TRIANGLES, boundingSphere = None\<rparr>,
      modelMatrix = 0\<rparr>"

definition instance4 :: "(int, unit, nat) GeometryInstance" where
  "instance4 =
     \<lparr>geometry = \<lparr>attributes = [(''position'', \<lparr>componentDatatype = FLOAT,
          componentsPerAttribute = 2, normalize = False,
          values = Some [Some 40, Some 41, Some 50, Some 51, Some 60, Some 61,
                         Some 70, Some 71]\<rparr>)],
        indexList = Some (map Some [0, 1, 2, 2, 1, 3]),
        primitiveType = TRIANGLES, boundingSphere = None\<rparr>,
      modelMatrix = 0\<rparr>"

section \<open>Properties of toWireframe\<close>

text \<open>
  C4. The claim says that a geometry whose primitive type is not a triangle type comes
  back from \<^verbatim>\<open>toWireframe\<close> unchanged. For a \<^verbatim>\<open>POINTS\<close> geometry with the index
  list \<open>[0]\<close> the code keeps the index list and sets the primitive type to
  \<^verbatim>\<open>LINES\<close>.
\<close>

theorem toWireframe_points_becomes_lines:
  "toWireframe (Some \<lparr>attributes = ([] :: (string \<times> real GeometryAttribute) list),
                      indexList = Some [Some 0], primitiveType = POINTS,
                      boundingSphere = (None :: unit option)\<rparr>)
   = Inr \<lparr>attributes = [], indexList = Some [Some 0], primitiveType = LINES,
          boundingSphere = None\<rparr>"
  by (simp add: toWireframe_def)

section \<open>Properties of reorderForPostVertexCache\<close>

text \<open>
  C9. Whatever \<^verbatim>\<open>Tipsify.tipsify\<close> returns, a call of
  \<^verbatim>\<open>reorderForPostVertexCache\<close> that returns leaves the attributes (and the
  primitive type and the bounding sphere) as they were; and when the primitive type is
  not \<^verbatim>\<open>TRIANGLES\<close> or there is no index list, it returns the geometry unchanged.
\<close>

theorem reorderForPostVertexCache_frame:
  "(reorderForPostVertexCache tipsify (Some g) cacheCapacity = Inr g'
      \<longrightarrow> attributes g' = attributes g \<and> primitiveType g' = primitiveType g
          \<and> boundingSphere g' = boundingSphere g)
   \<and> (primitiveType h \<noteq> TRIANGLES \<or> indexList h = None
      \<longrightarrow> reorderForPostVertexCache tipsify (Some h) cacheCapacity = Inr h)"
  by (auto simp: reorderForPostVertexCache_def split: option.splits sum.splits if_splits)

theorem reorderForPostVertexCache_frame_witness:
  "reorderForPostVertexCache (\<lambda>indices maximumIndex cacheSize. Inr (rev indices))
     (Some \<lparr>attributes = [(''position'', \<lparr>componentDatatype = FLOAT,
               componentsPerAttribute = 1, normalize = False,
               values = Some [Some (1::real), Some 2, Some 3]\<rparr>)],
            indexList = Some [Some 0, Some 1, Some 2], primitiveType = TRIANGLES,
            boundingSphere = (None :: unit option)\<rparr>) None
   = Inr \<lparr>attributes = [(''position'', \<lparr>componentDatatype = FLOAT,
               componentsPerAttribute = 1, normalize = False,
               values = Some [Some (1::real), Some 2, Some 3]\<rparr>)],
            indexList = Some [Some 2, Some 1, Some 0], primitiveType = TRIANGLES,
            boundingSphere = None\<rparr>
   \<and> attributes \<lparr>attributes = [(''position'', \<lparr>componentDatatype = FLOAT,
               componentsPerAttribute = 1, normalize = False,
               values = Some [Some (1::real), Some 2, Some 3]\<rparr>)],
            indexList = Some [Some 2, Some 1, Some 0], primitiveType = TRIANGLES,
            boundingSphere = (None :: unit option)\<rparr>
     = [(''position'', \<lparr>componentDatatype = FLOAT,
               componentsPerAttribute = 1, normalize = False,
               values = Some [Some (1::real), Some 2, Some 3]\<rparr>)]
   \<and> primitiveType \<lparr>attributes = ([] :: (string \<times> real GeometryAttribute) list),
        indexList = Some [Some 0, Some 1], primitiveType = LINES,
        boundingSphere = (None :: unit option)\<rparr> \<noteq> TRIANGLES
   \<and> reorderForPostVertexCache (\<lambda>indices maximumIndex cacheSize. Inr (rev indices))
        (Some \<lparr>attributes = ([] :: (string \<times> real GeometryAttribute) list),
           indexList = Some [Some 0, Some 1], primitiveType = LINES,
           boundingSphere = (None :: unit option)\<rparr>) None
      = Inr \<lparr>attributes = [], indexList = Some [Some 0, Some 1], primitiveType = LINES,
           boundingSphere = None\<rparr>"
proof -
  let ?tip = "(\<lambda>indices maximumIndex cacheSize. Inr (rev indices)) :: tipsify_fn"
  let ?pos = "[(''position'', \<lparr>componentDatatype = FLOAT,
               componentsPerAttribute = 1, normalize = False,
               values = Some [Some (1::real), Some 2, Some 3]\<rparr>)]"
  let ?g = "\<lparr>attributes = ?pos, indexList = Some [Some 0, Some 1, Some 2],
             primitiveType = TRIANGLES, boundingSphere = (None :: unit option)\<rparr>"
  let ?g' = "\<lparr>attributes = ?pos, indexList = Some [Some 2, Some 1, Some 0],
             primitiveType = TRIANGLES, boundingSphere = (None :: unit option)\<rparr>"
  let ?h = "\<lparr>attributes = ([] :: (string \<times> real GeometryAttribute) list),
             indexList = Some [Some 0, Some 1], primitiveType = LINES,
             boundingSphere = (None :: unit option)\<rparr>"
  have run: "reorderForPostVertexCache ?tip (Some ?g) None = Inr ?g'"
    by (simp add: reorderForPostVertexCache_def)
  have lines: "primitiveType ?h \<noteq> TRIANGLES"
    by simp
  from reorderForPostVertexCache_frame [of ?tip ?g None ?g' ?h] run lines
  show ?thesis
    by simp
qed

section \<open>Properties of reorderForPreVertexCache\<close>

lemma referenced_append:
  "referenced n (p @ q) = referenced n p @ referenced n q"
  by (induction n p rule: referenced.induct) auto

lemma referenced_lt: "x \<in> set (referenced n p) \<Longrightarrow> x < n"
  by (induction n p rule: referenced.induct) (auto split: if_splits)

lemma rank_append_mem:
  "x \<in> set xs \<Longrightarrow> firstReferenceRank (xs @ ys) x = firstReferenceRank xs x"
  by (simp add: firstReferenceRank_def takeWhile_append1)

lemma rank_append_new:
  assumes "x \<notin> set xs"
  shows "firstReferenceRank (xs @ x # ys) x = card (set xs)"
proof -
  have "takeWhile (\<lambda>y. y \<noteq> x) xs = xs"
    using assms by auto
  with assms show ?thesis
    by (simp add: firstReferenceRank_def takeWhile_append2)
qed

lemma rank_lt_card:
  assumes "x \<in> set xs" shows "firstReferenceRank xs x < card (set xs)"
proof -
  have "set (takeWhile (\<lambda>y. y \<noteq> x) xs) \<subseteq> set xs - {x}"
    by (auto dest: set_takeWhileD)
  then have "card (set (takeWhile (\<lambda>y. y \<noteq> x) xs)) \<le> card (set xs - {x})"
    by (intro card_mono) auto
  also have "\<dots> < card (set xs)"
    using assms by (intro psubset_card_mono) auto
  finally show ?thesis by (simp add: firstReferenceRank_def)
qed

lemma rank_inj:
  "x \<in> set xs \<Longrightarrow> y \<in> set xs \<Longrightarrow> firstReferenceRank xs x = firstReferenceRank xs y \<Longrightarrow> x = y"
proof (induction xs rule: rev_induct)
  case Nil
  then show ?case by simp
next
  case (snoc z zs)
  show ?case
  proof (cases "z \<in> set zs")
    case True
    with snoc show ?thesis by (auto simp: rank_append_mem)
  next
    case False
    have new: "firstReferenceRank (zs @ [z]) z = card (set zs)"
      using False by (simp add: rank_append_new)
    show ?thesis
    proof (cases "x = z")
      case xz: True
      show ?thesis
      proof (cases "y = z")
        case True
        with xz show ?thesis by simp
      next
        case yz: False
        with snoc.prems have "y \<in> set zs" by auto
        then have "firstReferenceRank (zs @ [z]) y < card (set zs)"
          by (simp add: rank_append_mem rank_lt_card)
        with snoc.prems xz new show ?thesis by simp
      qed
    next
      case xz: False
      with snoc.prems have xin: "x \<in> set zs" by auto
      show ?thesis
      proof (cases "y = z")
        case True
        from xin have "firstReferenceRank (zs @ [z]) x < card (set zs)"
          by (simp add: rank_append_mem rank_lt_card)
        with snoc.prems True new show ?thesis by simp
      next
        case False
        with snoc.prems have "y \<in> set zs" by auto
        with xin snoc show ?thesis by (simp add: rank_append_mem)
      qed
    qed
  qed
qed

lemma length_xrefOf [simp]: "length (xrefOf n xs) = n"
  by (simp add: xrefOf_def)

lemma nth_xrefOf:
  "x < n \<Longrightarrow> xrefOf n xs ! x = (if x \<in> set xs then int (firstReferenceRank xs x) else - 1)"
  by (simp add: xrefOf_def)

lemma xrefOf_snoc_mem: "x \<in> set xs \<Longrightarrow> xrefOf n (xs @ [x]) = xrefOf n xs"
  by (auto simp: xrefOf_def rank_append_mem)

lemma xrefOf_snoc_new:
  assumes "x \<notin> set xs" "x < n"
  shows "xrefOf n (xs @ [x]) = (xrefOf n xs)[x := int (card (set xs))]"
proof (rule nth_equalityI)
  show "length (xrefOf n (xs @ [x])) = length ((xrefOf n xs)[x := int (card (set xs))])"
    by simp
next
  fix i assume "i < length (xrefOf n (xs @ [x]))"
  then have i: "i < n" by simp
  show "xrefOf n (xs @ [x]) ! i = (xrefOf n xs)[x := int (card (set xs))] ! i"
  proof (cases "i = x")
    case True
    with assms i show ?thesis by (simp add: nth_xrefOf rank_append_new)
  next
    case False
    with assms i show ?thesis by (auto simp: nth_xrefOf rank_append_mem nth_list_update)
  qed
qed

lemma xrefOf_empty: "xrefOf n [] = replicate n (- 1)"
  by (simp add: xrefOf_def map_replicate_const)

lemma reorderIndices_loop_spec:
  "reorderIndices_loop n rest (xrefOf n (referenced n p)) (card (set (referenced n p))) out
   = Inr (xrefOf n (referenced n (p @ rest)),
          out @ map (renumber n (referenced n (p @ rest))) rest)"
proof (induction rest arbitrary: p out)
  case Nil
  then show ?case by simp
next
  case (Cons idx rest)
  let ?R = "referenced n p"
  have split: "p @ idx # rest = (p @ [idx]) @ rest" by simp
  show ?case
  proof (cases idx)
    case None
    have R': "referenced n (p @ [idx]) = ?R" by (simp add: None referenced_append)
    have "reorderIndices_loop n (idx # rest) (xrefOf n ?R) (card (set ?R)) out
          = reorderIndices_loop n rest (xrefOf n ?R) (card (set ?R)) (out @ [None])"
      by (simp add: None crossReference_def)
    also have "\<dots> = Inr (xrefOf n (referenced n ((p @ [idx]) @ rest)),
          (out @ [None]) @ map (renumber n (referenced n ((p @ [idx]) @ rest))) rest)"
      using Cons.IH [of "p @ [idx]" "out @ [None]"] by (simp only: R')
    finally show ?thesis unfolding split by (simp add: None renumber_def)
  next
    case (Some x)
    show ?thesis
    proof (cases "x < n")
      case False
      have R': "referenced n (p @ [idx]) = ?R" using False by (simp add: Some referenced_append)
      have "reorderIndices_loop n (idx # rest) (xrefOf n ?R) (card (set ?R)) out
          = reorderIndices_loop n rest (xrefOf n ?R) (card (set ?R)) (out @ [None])"
        using False by (simp add: Some crossReference_def)
      also have "\<dots> = Inr (xrefOf n (referenced n ((p @ [idx]) @ rest)),
          (out @ [None]) @ map (renumber n (referenced n ((p @ [idx]) @ rest))) rest)"
        using Cons.IH [of "p @ [idx]" "out @ [None]"] by (simp only: R')
      finally show ?thesis unfolding split using False by (simp add: Some renumber_def)
    next
      case True
      have R': "referenced n (p @ [idx]) = ?R @ [x]" using True by (simp add: Some referenced_append)
      have mem': "x \<in> set (referenced n (p @ [idx]))" by (simp add: R')
      have "referenced n (p @ idx # rest) = (?R @ [x]) @ referenced n rest"
        using True by (simp add: Some referenced_append)
      then have rk: "firstReferenceRank (referenced n (p @ idx # rest)) x
                = firstReferenceRank (?R @ [x]) x"
        using rank_append_mem [of x "?R @ [x]" "referenced n rest"] by simp
      show ?thesis
      proof (cases "x \<in> set ?R")
        case mem: True
        have "reorderIndices_loop n (idx # rest) (xrefOf n ?R) (card (set ?R)) out
          = reorderIndices_loop n rest (xrefOf n ?R) (card (set ?R))
              (out @ [Some (firstReferenceRank ?R x)])"
          using True mem by (simp add: Some crossReference_def nth_xrefOf)
        also have "\<dots> = reorderIndices_loop n rest (xrefOf n (referenced n (p @ [idx])))
              (card (set (referenced n (p @ [idx]))))
              (out @ [Some (firstReferenceRank ?R x)])"
          using mem by (simp add: R' xrefOf_snoc_mem insert_absorb)
        also have "\<dots> = Inr (xrefOf n (referenced n ((p @ [idx]) @ rest)),
          (out @ [Some (firstReferenceRank ?R x)])
            @ map (renumber n (referenced n ((p @ [idx]) @ rest))) rest)"
          by (rule Cons.IH)
        finally show ?thesis unfolding split
          using True mem rk by (simp add: Some renumber_def rank_append_mem)
      next
        case new: False
        have "reorderIndices_loop n (idx # rest) (xrefOf n ?R) (card (set ?R)) out
          = reorderIndices_loop n rest ((xrefOf n ?R)[x := int (card (set ?R))])
              (card (set ?R) + 1) (out @ [Some (card (set ?R))])"
          using True new by (simp add: Some crossReference_def nth_xrefOf)
        also have "\<dots> = reorderIndices_loop n rest (xrefOf n (referenced n (p @ [idx])))
              (card (set (referenced n (p @ [idx]))))
              (out @ [Some (card (set ?R))])"
          using True new by (simp add: R' xrefOf_snoc_new)
        also have "\<dots> = Inr (xrefOf n (referenced n ((p @ [idx]) @ rest)),
          (out @ [Some (card (set ?R))])
            @ map (renumber n (referenced n ((p @ [idx]) @ rest))) rest)"
          by (rule Cons.IH)
        finally show ?thesis unfolding split
          using True new rk rank_append_new [OF new, of "[]"] by (simp add: Some renumber_def)
      qed
    qed
  qed
qed

lemma reorderIndices_loop_result:
  "reorderIndices_loop n idxs (replicate n (- 1)) 0 []
   = Inr (xrefOf n (referenced n idxs), map (renumber n (referenced n idxs)) idxs)"
  using reorderIndices_loop_spec [of n idxs "[]" "[]"] by (simp add: xrefOf_empty)

declare reorderComponents_loop.simps [simp del]

declare reorderElements_loop.simps [simp del]

lemma jsget_jsset: "jsget (jsset xs i v) j = (if j = i then v else jsget xs j)"
  by (auto simp: jsget_def jsset_def nth_append nth_Cons')

lemma length_jsset: "length (jsset xs i v) = max (length xs) (Suc i)"
  by (auto simp: jsset_def)

lemma jsarray_eqI:
  assumes "length xs = length ys" "\<And>j. j < length xs \<Longrightarrow> jsget xs j = jsget ys j"
  shows "xs = ys"
  using assms by (intro nth_equalityI) (auto simp: jsget_def)

lemma jsset_key_nat:
  "jsset_key out (Some (int nc * int s + int i)) v = jsset out (nc * s + i) v"
proof -
  have e: "int nc * int s + int i = int (nc * s + i)" by simp
  show ?thesis unfolding e by (simp add: jsset_key_def del: of_nat_add of_nat_mult)
qed

lemma reorderComponents_skip_neg:
  "t < 0 \<Longrightarrow> reorderComponents_loop nc (Some t) vin into i out = out"
proof (induction nc "Some t" vin into i out rule: reorderComponents_loop.induct)
  case (1 nc vin into i out)
  have neg: "int nc * t + int i < 0 \<or> \<not> i < nc"
  proof (cases "i < nc")
    case True
    have "int nc * t \<le> int nc * (- 1)"
      using 1(2) by (intro mult_left_mono) auto
    with True show ?thesis by simp
  qed simp
  show ?case
  proof (cases "i < nc")
    case True
    with neg have "int nc * t + int i < 0" by simp
    with 1 True show ?thesis
      by (subst reorderComponents_loop.simps) (simp add: jsset_key_def)
  next
    case False
    then show ?thesis by (subst reorderComponents_loop.simps) simp
  qed
qed

lemma reorderComponents_skip_None:
  "reorderComponents_loop nc None vin into i out = out"
proof (induction nc "None :: int option" vin into i out rule: reorderComponents_loop.induct)
  case (1 nc vin into i out)
  then show ?case
    by (subst reorderComponents_loop.simps) (simp add: jsset_key_def)
qed

lemma reorderComponents_view:
  "jsget (reorderComponents_loop nc (Some (int s)) vin into i out) j
   = (if nc * s + i \<le> j \<and> j < nc * s + nc then jsget vin (nc * into + (j - nc * s))
      else jsget out j)"
proof (induction nc "Some (int s)" vin into i out rule: reorderComponents_loop.induct)
  case (1 nc vin into i out)
  show ?case
  proof (cases "i < nc")
    case True
    note key = jsset_key_nat
    show ?thesis
      using True 1(1) [OF True]
      by (subst reorderComponents_loop.simps) (auto simp: key jsget_jsset)
  next
    case False
    then show ?thesis by (subst reorderComponents_loop.simps) auto
  qed
qed

lemma reorderComponents_length:
  "length (reorderComponents_loop nc (Some (int s)) vin into i out)
   = (if i < nc then max (length out) (nc * s + nc) else length out)"
proof (induction nc "Some (int s)" vin into i out rule: reorderComponents_loop.induct)
  case (1 nc vin into i out)
  show ?case
  proof (cases "i < nc")
    case True
    note key = jsset_key_nat
    show ?thesis
      using True 1(1) [OF True]
      by (subst reorderComponents_loop.simps) (auto simp: key length_jsset)
  next
    case False
    then show ?thesis by (subst reorderComponents_loop.simps) simp
  qed
qed

text \<open>One step of the outer loop, by the kind of entry read from the cross reference.\<close>

lemma crossReference_nth:
  "x < length xref \<Longrightarrow> crossReference xref (Some x) = Some (xref ! x)"
  by (simp add: crossReference_def)

lemma reorderElements_view_miss:
  assumes "length xref = n"
    and "\<And>x. into \<le> x \<Longrightarrow> x < n \<Longrightarrow> 0 \<le> xref ! x \<Longrightarrow>
          \<not> (nc * nat (xref ! x) \<le> j \<and> j < nc * nat (xref ! x) + nc)"
  shows "jsget (reorderElements_loop n xref nc vin into out) j = jsget out j"
  using assms
proof (induction n xref nc vin into out rule: reorderElements_loop.induct)
  case (1 n xref nc vin into out)
  show ?case
  proof (cases "into < n")
    case False
    then show ?thesis by (subst reorderElements_loop.simps) simp
  next
    case True
    let ?out' = "reorderComponents_loop nc (crossReference xref (Some into)) vin into 0 out"
    have step: "jsget ?out' j = jsget out j"
    proof (cases "0 \<le> xref ! into")
      case nonneg: True
      then obtain s where s: "xref ! into = int s" using nonneg_int_cases by blast
      have "\<not> (nc * s \<le> j \<and> j < nc * s + nc)"
        using 1(3) [of into] True nonneg s by simp
      then show ?thesis
        using True 1(2) s by (auto simp: crossReference_nth reorderComponents_view)
    next
      case False
      then show ?thesis
        using True 1(2) by (simp add: crossReference_nth reorderComponents_skip_neg)
    qed
    have "jsget (reorderElements_loop n xref nc vin (into + 1) ?out') j = jsget ?out' j"
      using 1(1) [OF True 1(2)] 1(3) by simp
    with step True show ?thesis
      by (subst reorderElements_loop.simps) simp
  qed
qed

lemma block_disjoint:
  fixes nc s s' c :: nat
  assumes "s \<noteq> s'" "c < nc"
  shows "\<not> (nc * s' \<le> nc * s + c \<and> nc * s + c < nc * s' + nc)"
proof
  assume a: "nc * s' \<le> nc * s + c \<and> nc * s + c < nc * s' + nc"
  have "(nc * s + c) div nc = s" using assms by simp
  moreover have "(nc * s + c) div nc = s'"
  proof -
    obtain d where d: "nc * s + c = nc * s' + d" "d < nc"
      using a by (metis add_diff_inverse_nat add_less_cancel_left linorder_not_less)
    then show ?thesis using assms by simp
  qed
  ultimately show False using assms by simp
qed

lemma reorderElements_view_hit:
  assumes "length xref = n"
    and "\<And>x y. x < n \<Longrightarrow> y < n \<Longrightarrow> 0 \<le> xref ! x \<Longrightarrow> xref ! x = xref ! y \<Longrightarrow> x = y"
    and "into \<le> x" "x < n" "0 \<le> xref ! x" "c < nc"
  shows "jsget (reorderElements_loop n xref nc vin into out) (nc * nat (xref ! x) + c)
         = jsget vin (nc * x + c)"
  using assms
proof (induction n xref nc vin into out rule: reorderElements_loop.induct)
  case (1 n xref nc vin into out)
  have lt: "into < n" using 1 by simp
  let ?out' = "reorderComponents_loop nc (crossReference xref (Some into)) vin into 0 out"
  let ?j = "nc * nat (xref ! x) + c"
  show ?case
  proof (cases "x = into")
    case False
    then have "into + 1 \<le> x" using 1 by simp
    with 1 lt have "jsget (reorderElements_loop n xref nc vin (into + 1) ?out') ?j
                  = jsget vin (nc * x + c)"
      by blast
    with lt show ?thesis by (subst reorderElements_loop.simps) simp
  next
    case True
    obtain s where s: "xref ! x = int s" using 1(6) nonneg_int_cases by blast
    have miss: "jsget (reorderElements_loop n xref nc vin (into + 1) ?out') ?j = jsget ?out' ?j"
    proof (rule reorderElements_view_miss [OF 1(2)])
      fix y assume y: "into + 1 \<le> y" "y < n" "0 \<le> xref ! y"
      have "xref ! y \<noteq> xref ! x"
        using 1(3) [of y x] y True 1(5) by auto
      then have "nat (xref ! x) \<noteq> nat (xref ! y)"
        using y 1(6) by simp
      then show "\<not> (nc * nat (xref ! y) \<le> ?j \<and> ?j < nc * nat (xref ! y) + nc)"
        using block_disjoint [of "nat (xref ! x)" "nat (xref ! y)" c nc] 1(7) by simp
    qed
    have "jsget ?out' ?j = jsget vin (nc * x + c)"
      using True 1(2) 1(5) 1(7) s by (simp add: crossReference_nth reorderComponents_view)
    with miss lt show ?thesis by (subst reorderElements_loop.simps) simp
  qed
qed

lemma reorderElements_length_le:
  assumes "length xref = n" "length out \<le> b"
    and "\<And>x. x < n \<Longrightarrow> 0 \<le> xref ! x \<Longrightarrow> nc * nat (xref ! x) + nc \<le> b"
  shows "length (reorderElements_loop n xref nc vin into out) \<le> b"
  using assms
proof (induction n xref nc vin into out rule: reorderElements_loop.induct)
  case (1 n xref nc vin into out)
  show ?case
  proof (cases "into < n")
    case False
    with 1 show ?thesis by (subst reorderElements_loop.simps) simp
  next
    case True
    let ?out' = "reorderComponents_loop nc (crossReference xref (Some into)) vin into 0 out"
    have "length ?out' \<le> b"
    proof (cases "0 \<le> xref ! into")
      case nonneg: True
      then obtain s where s: "xref ! into = int s" using nonneg_int_cases by blast
      have "nc * s + nc \<le> b" using 1(4) [of into] True nonneg s by simp
      then show ?thesis
        using True 1(2) 1(3) s by (simp add: crossReference_nth reorderComponents_length)
    next
      case False
      then show ?thesis
        using True 1(2) 1(3) by (simp add: crossReference_nth reorderComponents_skip_neg)
    qed
    then have "length (reorderElements_loop n xref nc vin (into + 1) ?out') \<le> b"
      using 1(1) [OF True 1(2)] 1(4) by simp
    with True show ?thesis by (subst reorderElements_loop.simps) simp
  qed
qed

lemma reorderElements_length_mono:
  assumes "length xref = n"
  shows "length out \<le> length (reorderElements_loop n xref nc vin into out)"
  using assms
proof (induction n xref nc vin into out rule: reorderElements_loop.induct)
  case (1 n xref nc vin into out)
  show ?case
  proof (cases "into < n")
    case False
    then show ?thesis by (subst reorderElements_loop.simps) simp
  next
    case True
    let ?out' = "reorderComponents_loop nc (crossReference xref (Some into)) vin into 0 out"
    have "length out \<le> length ?out'"
    proof (cases "0 \<le> xref ! into")
      case nonneg: True
      then obtain s where s: "xref ! into = int s" using nonneg_int_cases by blast
      then show ?thesis
        using True 1(2) s by (simp add: crossReference_nth reorderComponents_length)
    next
      case False
      then show ?thesis
        using True 1(2) by (simp add: crossReference_nth reorderComponents_skip_neg)
    qed
    moreover have "length ?out' \<le> length (reorderElements_loop n xref nc vin (into + 1) ?out')"
      using 1(1) [OF True 1(2)] .
    ultimately show ?thesis using True by (subst reorderElements_loop.simps) simp
  qed
qed

lemma reorderElements_length_ge:
  assumes "length xref = n" "into \<le> x" "x < n" "0 \<le> xref ! x" "0 < nc"
  shows "nc * nat (xref ! x) + nc \<le> length (reorderElements_loop n xref nc vin into out)"
  using assms
proof (induction n xref nc vin into out rule: reorderElements_loop.induct)
  case (1 n xref nc vin into out)
  have lt: "into < n" using 1 by simp
  let ?out' = "reorderComponents_loop nc (crossReference xref (Some into)) vin into 0 out"
  show ?case
  proof (cases "x = into")
    case False
    then have "into + 1 \<le> x" using 1 by simp
    with 1 lt have "nc * nat (xref ! x) + nc
       \<le> length (reorderElements_loop n xref nc vin (into + 1) ?out')"
      by blast
    with lt show ?thesis by (subst reorderElements_loop.simps) simp
  next
    case True
    obtain s where s: "xref ! x = int s" using 1(5) nonneg_int_cases by blast
    have "nc * s + nc \<le> length ?out'"
      using True 1(2) 1(4) 1(6) s by (simp add: crossReference_nth reorderComponents_length)
    also have "\<dots> \<le> length (reorderElements_loop n xref nc vin (into + 1) ?out')"
      by (rule reorderElements_length_mono [OF 1(2)])
    finally show ?thesis using lt s by (subst reorderElements_loop.simps) simp
  qed
qed

lemma rank_inj_on: "inj_on (firstReferenceRank xs) (set xs)"
proof (rule inj_onI)
  fix a b
  assume "a \<in> set xs" "b \<in> set xs" "firstReferenceRank xs a = firstReferenceRank xs b"
  then show "a = b" by (rule rank_inj)
qed

lemma rank_image:
  "firstReferenceRank xs ` set xs = {..<card (set xs)}"
proof (rule card_subset_eq)
  show "finite {..<card (set xs)}" by simp
  show "firstReferenceRank xs ` set xs \<subseteq> {..<card (set xs)}"
    using rank_lt_card by auto
  show "card (firstReferenceRank xs ` set xs) = card {..<card (set xs)}"
    using rank_inj_on [of xs] by (simp add: card_image)
qed

lemma rank_surj:
  assumes "k < card (set xs)"
  shows "\<exists>x\<in>set xs. firstReferenceRank xs x = k"
proof -
  from assms have "k \<in> firstReferenceRank xs ` set xs"
    by (simp add: rank_image)
  then show ?thesis by auto
qed

lemma rank_fixpoint:
  assumes "x \<in> set xs"
  shows "firstReferenceRank (map (firstReferenceRank xs) xs) (firstReferenceRank xs x)
         = firstReferenceRank xs x"
proof -
  let ?f = "firstReferenceRank xs"
  let ?T = "takeWhile (\<lambda>y. y \<noteq> x) xs"
  have "takeWhile (\<lambda>y. y \<noteq> ?f x) (map ?f xs) = map ?f (takeWhile ((\<lambda>y. y \<noteq> ?f x) \<circ> ?f) xs)"
    by (rule takeWhile_map)
  also have "takeWhile ((\<lambda>y. y \<noteq> ?f x) \<circ> ?f) xs = ?T"
  proof (rule takeWhile_cong)
    fix y assume "y \<in> set xs"
    then have "?f y = ?f x \<longleftrightarrow> y = x"
      using assms rank_inj [of y xs x] by blast
    then show "((\<lambda>y. y \<noteq> ?f x) \<circ> ?f) y = (y \<noteq> x)" by simp
  qed simp
  finally have tw: "takeWhile (\<lambda>y. y \<noteq> ?f x) (map ?f xs) = map ?f ?T" .
  have "set ?T \<subseteq> set xs"
    by (auto dest: set_takeWhileD)
  then have "inj_on ?f (set ?T)"
    by (rule inj_on_subset [OF rank_inj_on])
  then have "card (?f ` set ?T) = card (set ?T)"
    by (rule card_image)
  moreover have "firstReferenceRank (map ?f xs) (?f x) = card (?f ` set ?T)"
    unfolding firstReferenceRank_def [of "map ?f xs"] tw by simp
  ultimately show ?thesis
    by (simp add: firstReferenceRank_def [of xs x])
qed

lemma xrefOf_inj:
  assumes "x < n" "y < n" "0 \<le> xrefOf n xs ! x" "xrefOf n xs ! x = xrefOf n xs ! y"
  shows "x = y"
proof -
  from assms have "x \<in> set xs" by (simp add: nth_xrefOf split: if_splits)
  moreover from assms have "y \<in> set xs" by (simp add: nth_xrefOf split: if_splits)
  ultimately show ?thesis using assms by (auto simp: nth_xrefOf dest: rank_inj)
qed

lemma reorderElements_first_pass_length:
  assumes "\<forall>x\<in>set xs. x < n" "0 < nc"
  shows "length (reorderElements_loop n (xrefOf n xs) nc vin 0 []) = nc * card (set xs)"
proof (rule antisym)
  show "length (reorderElements_loop n (xrefOf n xs) nc vin 0 []) \<le> nc * card (set xs)"
  proof (rule reorderElements_length_le)
    fix x assume "x < n" "0 \<le> xrefOf n xs ! x"
    then have "x \<in> set xs" "nat (xrefOf n xs ! x) = firstReferenceRank xs x"
      by (simp_all add: nth_xrefOf split: if_splits)
    then have "Suc (nat (xrefOf n xs ! x)) \<le> card (set xs)"
      by (simp add: rank_lt_card Suc_leI)
    then have "nc * Suc (nat (xrefOf n xs ! x)) \<le> nc * card (set xs)"
      by (rule mult_le_mono2)
    then show "nc * nat (xrefOf n xs ! x) + nc \<le> nc * card (set xs)"
      by simp
  qed simp_all
next
  show "nc * card (set xs) \<le> length (reorderElements_loop n (xrefOf n xs) nc vin 0 [])"
  proof (cases "card (set xs) = 0")
    case True
    then show ?thesis by simp
  next
    case False
    then have "card (set xs) - 1 < card (set xs)" by arith
    then obtain x where x: "x \<in> set xs" "firstReferenceRank xs x = card (set xs) - 1"
      using rank_surj [of "card (set xs) - 1" xs] by blast
    with assms have xn: "x < n" by simp
    have "nc * nat (xrefOf n xs ! x) + nc
          \<le> length (reorderElements_loop n (xrefOf n xs) nc vin 0 [])"
      using xn x assms by (intro reorderElements_length_ge) (simp_all add: nth_xrefOf)
    moreover have "nc * nat (xrefOf n xs ! x) + nc = nc * card (set xs)"
    proof -
      have "nat (xrefOf n xs ! x) = card (set xs) - 1"
        using xn x by (simp add: nth_xrefOf)
      with False have "nat (xrefOf n xs ! x) + 1 = card (set xs)"
        by arith
      then have "nc * (nat (xrefOf n xs ! x) + 1) = nc * card (set xs)" by simp
      then show ?thesis by simp
    qed
    ultimately show ?thesis by simp
  qed
qed

lemma reorderElements_identity:
  assumes "length vs = nc * m" "0 < nc"
  shows "reorderElements_loop m (map int [0..<m]) nc vs 0 [] = vs"
proof (rule jsarray_eqI)
  let ?xref = "map int [0..<m]"
  let ?out = "reorderElements_loop m ?xref nc vs 0 []"
  have len: "length ?xref = m" by simp
  have le: "length ?out \<le> nc * m"
  proof (rule reorderElements_length_le [OF len])
    fix x assume "x < m"
    then have "nc * Suc x \<le> nc * m" by (intro mult_le_mono2) simp
    then show "nc * nat (?xref ! x) + nc \<le> nc * m" using \<open>x < m\<close> by simp
  qed simp
  have ge: "nc * m \<le> length ?out"
  proof (cases m)
    case 0
    then show ?thesis by simp
  next
    case (Suc k)
    have k: "?xref ! k = int k" using Suc by (simp del: upt_Suc)
    have "nc * nat (?xref ! k) + nc \<le> length ?out"
      using Suc assms k by (intro reorderElements_length_ge [OF len]) (simp_all del: upt_Suc)
    then show ?thesis using Suc k by (simp del: upt_Suc)
  qed
  from le ge show "length ?out = length vs" using assms by simp
  fix j assume "j < length ?out"
  with le have j: "j < nc * m" by simp
  let ?x = "j div nc" and ?c = "j mod nc"
  have x: "?x < m" using j assms by (simp add: less_mult_imp_div_less mult.commute)
  have c: "?c < nc" using assms by simp
  have "jsget ?out (nc * nat (?xref ! ?x) + ?c) = jsget vs (nc * ?x + ?c)"
    using x c by (intro reorderElements_view_hit [OF len]) simp_all
  then show "jsget ?out j = jsget vs j" using x by simp
qed

lemma referenced_mem:
  "Some x \<in> set idxs \<Longrightarrow> x < n \<Longrightarrow> x \<in> set (referenced n idxs)"
  by (induction n idxs rule: referenced.induct) (auto split: if_splits)

lemma referenced_renumber:
  assumes "set (referenced n idxs) \<subseteq> set xs"
  shows "referenced (card (set xs)) (map (renumber n xs) idxs)
         = map (firstReferenceRank xs) (referenced n idxs)"
  using assms
proof (induction n idxs rule: referenced.induct)
  case (3 n x rest)
  show ?case
  proof (cases "x < n")
    case True
    with 3 have "x \<in> set xs" "set (referenced n rest) \<subseteq> set xs" by auto
    with 3 True show ?thesis by (simp add: renumber_def rank_lt_card)
  next
    case False
    with 3 show ?thesis by (simp add: renumber_def)
  qed
qed (simp_all add: renumber_def)

lemma renumber_fixpoint:
  assumes "idx \<in> set idxs" "xs = referenced n idxs"
  shows "renumber (card (set xs)) (map (firstReferenceRank xs) xs) (renumber n xs idx)
         = renumber n xs idx"
proof (cases idx)
  case None
  then show ?thesis by (simp add: renumber_def)
next
  case (Some x)
  show ?thesis
  proof (cases "x < n")
    case False
    then show ?thesis by (simp add: Some renumber_def)
  next
    case True
    with assms Some have "x \<in> set xs" by (simp add: referenced_mem)
    then show ?thesis
      using True by (simp add: Some renumber_def rank_lt_card rank_fixpoint)
  qed
qed

lemma xrefOf_second_pass:
  "xrefOf (card (set xs)) (map (firstReferenceRank xs) xs) = map int [0..<card (set xs)]"
proof (rule nth_equalityI)
  show "length (xrefOf (card (set xs)) (map (firstReferenceRank xs) xs))
        = length (map int [0..<card (set xs)])"
    by simp
next
  fix v assume "v < length (xrefOf (card (set xs)) (map (firstReferenceRank xs) xs))"
  then have v: "v < card (set xs)" by simp
  then obtain x where x: "x \<in> set xs" "firstReferenceRank xs x = v"
    using rank_surj by blast
  then have "v \<in> set (map (firstReferenceRank xs) xs)" by auto
  moreover have "firstReferenceRank (map (firstReferenceRank xs) xs) v = v"
    using rank_fixpoint [OF x(1)] x(2) by simp
  ultimately show "xrefOf (card (set xs)) (map (firstReferenceRank xs) xs) ! v
        = map int [0..<card (set xs)] ! v"
    using v by (simp add: nth_xrefOf)
qed

lemma uniformAttributes_Cons:
  "uniformAttributes ((name, a) # attrs) m \<longleftrightarrow>
     (\<forall>vs. values a = Some vs \<longrightarrow> 0 < componentsPerAttribute a
         \<and> length vs = componentsPerAttribute a * m)
     \<and> uniformAttributes attrs m"
  by (auto simp: uniformAttributes_def)

lemma computeNumberOfVertices_loop_Inr:
  "computeNumberOfVertices_loop attrs acc = Inr r \<Longrightarrow>
     (acc \<noteq> None \<longrightarrow> r = acc)
     \<and> (\<forall>m. r = Some m \<longrightarrow> uniformAttributes attrs m)
     \<and> (r \<noteq> None \<longrightarrow> acc = None \<longrightarrow> hasValues attrs)"
proof (induction attrs acc rule: computeNumberOfVertices_loop.induct)
  case (1 numberOfVertices)
  then show ?case by (auto simp: uniformAttributes_def)
next
  case (2 name attribute rest numberOfVertices)
  show ?case
  proof (cases "values attribute")
    case None
    with 2 show ?thesis
      by (auto simp: uniformAttributes_Cons hasValues_def)
  next
    case (Some vs)
    let ?nc = "componentsPerAttribute attribute"
    from 2(3) Some have ok: "0 < ?nc" "length vs mod ?nc = 0"
      by (auto split: if_splits)
    from 2(3) Some ok have agree: "numberOfVertices = None \<or> numberOfVertices = Some (length vs div ?nc)"
      by (auto simp: Let_def split: if_splits)
    from 2(3) Some ok agree
    have rec: "computeNumberOfVertices_loop rest (Some (length vs div ?nc)) = Inr r"
      by (auto simp: Let_def split: if_splits)
    have IH: "r = Some (length vs div ?nc)" "\<forall>m. r = Some m \<longrightarrow> uniformAttributes rest m"
      using 2(2) [OF Some _ refl _ rec] ok agree by auto
    have "length vs = ?nc * (length vs div ?nc)"
      using ok by auto
    with IH Some ok agree show ?thesis
      by (auto simp: uniformAttributes_Cons hasValues_def)
  qed
qed

lemma computeNumberOfVertices_loop_uniform_Some:
  "uniformAttributes attrs m \<Longrightarrow> computeNumberOfVertices_loop attrs (Some m) = Inr (Some m)"
proof (induction attrs)
  case Nil
  then show ?case by simp
next
  case (Cons na attrs)
  obtain name a where na: "na = (name, a)" by (cases na)
  from Cons show ?case
    by (cases "values a") (auto simp: na uniformAttributes_Cons)
qed

lemma computeNumberOfVertices_loop_uniform_None:
  "uniformAttributes attrs m \<Longrightarrow> hasValues attrs
     \<Longrightarrow> computeNumberOfVertices_loop attrs None = Inr (Some m)"
proof (induction attrs)
  case Nil
  then show ?case by (simp add: hasValues_def)
next
  case (Cons na attrs)
  obtain name a where na: "na = (name, a)" by (cases na)
  show ?case
  proof (cases "values a")
    case None
    with Cons show ?thesis
      by (auto simp: na uniformAttributes_Cons hasValues_def)
  next
    case (Some vs)
    with Cons show ?thesis
      by (auto simp: na uniformAttributes_Cons computeNumberOfVertices_loop_uniform_Some)
  qed
qed

lemma computeNumberOfVertices_Inr:
  "computeNumberOfVertices g = Inr n \<Longrightarrow>
     uniformAttributes (attributes g) n \<and> hasValues (attributes g)"
  unfolding computeNumberOfVertices_def
  by (auto split: sum.splits option.splits dest!: computeNumberOfVertices_loop_Inr)

lemma computeNumberOfVertices_uniform:
  "uniformAttributes (attributes g) m \<Longrightarrow> hasValues (attributes g)
     \<Longrightarrow> computeNumberOfVertices g = Inr m"
  by (simp add: computeNumberOfVertices_def computeNumberOfVertices_loop_uniform_None)

lemma reorderAttributes_moved:
  assumes "\<forall>x\<in>set xs. x < n"
  shows "list_all2 (attributeMoved xs) attrs (reorderAttributes n (xrefOf n xs) attrs)"
proof (induction attrs)
  case Nil
  then show ?case by simp
next
  case (Cons na attrs)
  obtain name a where na: "na = (name, a)" by (cases na)
  have "attributeMoved xs (name, a)
          (case values a of
             None \<Rightarrow> (name, a)
           | Some elementsIn \<Rightarrow>
               (name, a\<lparr>values := Some (reorderElements_loop n (xrefOf n xs)
                  (componentsPerAttribute a) elementsIn 0 [])\<rparr>))"
  proof (cases "values a")
    case None
    then show ?thesis by (simp add: attributeMoved_def)
  next
    case (Some elementsIn)
    let ?nc = "componentsPerAttribute a"
    have "blocksMoved xs ?nc elementsIn (reorderElements_loop n (xrefOf n xs) ?nc elementsIn 0 [])"
      unfolding blocksMoved_def
    proof (intro ballI)
      fix x c assume x: "x \<in> set xs" and c: "c \<in> {0..<?nc}"
      with assms have xn: "x < n" by simp
      have "jsget (reorderElements_loop n (xrefOf n xs) ?nc elementsIn 0 [])
              (?nc * nat (xrefOf n xs ! x) + c) = jsget elementsIn (?nc * x + c)"
      proof (rule reorderElements_view_hit)
        fix a b assume "a < n" "b < n" "0 \<le> xrefOf n xs ! a" "xrefOf n xs ! a = xrefOf n xs ! b"
        then show "a = b" by (rule xrefOf_inj)
      qed (use x xn c in \<open>simp_all add: nth_xrefOf\<close>)
      then show "jsget (reorderElements_loop n (xrefOf n xs) ?nc elementsIn 0 [])
              (?nc * firstReferenceRank xs x + c) = jsget elementsIn (?nc * x + c)"
        using x xn by (simp add: nth_xrefOf)
    qed
    then show ?thesis by (simp add: Some attributeMoved_def)
  qed
  with Cons show ?case by (simp add: na)
qed

lemma reorderAttributes_uniform:
  assumes "\<forall>x\<in>set xs. x < n" "uniformAttributes attrs n"
  shows "uniformAttributes (reorderAttributes n (xrefOf n xs) attrs) (card (set xs))"
  using assms(2)
proof (induction attrs)
  case Nil
  then show ?case by (simp add: uniformAttributes_def)
next
  case (Cons na attrs)
  obtain name a where na: "na = (name, a)" by (cases na)
  from Cons assms(1) show ?case
    by (cases "values a")
       (auto simp: na uniformAttributes_Cons reorderElements_first_pass_length)
qed

lemma reorderAttributes_hasValues:
  "hasValues (reorderAttributes n xref attrs) = hasValues attrs"
proof (induction attrs)
  case Nil
  then show ?case by (simp add: hasValues_def)
next
  case (Cons na attrs)
  obtain name a where na: "na = (name, a)" by (cases na)
  from Cons show ?case
    by (cases "values a") (auto simp: na hasValues_def)
qed

lemma reorderAttributes_identity:
  "uniformAttributes attrs m \<Longrightarrow> reorderAttributes m (map int [0..<m]) attrs = attrs"
proof (induction attrs)
  case Nil
  then show ?case by simp
next
  case (Cons na attrs)
  obtain name a where na: "na = (name, a)" by (cases na)
  from Cons show ?case
    by (cases "values a")
       (auto simp: na uniformAttributes_Cons reorderElements_identity)
qed

lemma referenced_map_Some:
  "\<forall>x\<in>set xs. x < n \<Longrightarrow> referenced n (map Some xs) = xs"
  by (induction xs) auto

text \<open>
  C1. For a geometry whose index list holds only indices of existing vertices,
  \<^verbatim>\<open>reorderForPreVertexCache\<close> returns; every index is replaced by the rank of its
  first occurrence in the scanned list; every attribute keeps its name and shape, and
  the component block of each referenced vertex \<open>x\<close> is found at the slot given by
  the rank of \<open>x\<close>; primitive type and bounding sphere are kept. In the spec's
  example, indices \<open>[2, 2, 0, 1]\<close> over 4 vertices give \<open>[0, 0, 1, 2]\<close>, and the block
  of old vertex 2 is at slot 0.
\<close>

theorem reorderForPreVertexCache_first_reference_order:
  assumes "computeNumberOfVertices g = Inr numVertices"
    and "indexList g = Some (map Some xs)"
    and "\<forall>x\<in>set xs. x < numVertices"
  shows "\<exists>g'. reorderForPreVertexCache (Some g) = Inr g'
           \<and> indexList g' = Some (map (\<lambda>x. Some (firstReferenceRank xs x)) xs)
           \<and> list_all2 (attributeMoved xs) (attributes g) (attributes g')
           \<and> primitiveType g' = primitiveType g
           \<and> boundingSphere g' = boundingSphere g"
proof -
  have R: "referenced numVertices (map Some xs) = xs"
    using assms(3) by (rule referenced_map_Some)
  have "map (renumber numVertices xs) (map Some xs) = map (\<lambda>x. Some (firstReferenceRank xs x)) xs"
    using assms(3) by (simp add: renumber_def)
  then show ?thesis
    using assms reorderAttributes_moved [OF assms(3), of "attributes g"]
    by (simp add: reorderForPreVertexCache_def reorderIndices_loop_result R)
qed

theorem reorderForPreVertexCache_first_reference_order_witness:
  "computeNumberOfVertices exampleGeometry = Inr 4
   \<and> indexList exampleGeometry = Some (map Some [2, 2, 0, 1])
   \<and> list_all (\<lambda>x. x < 4) [2, 2, 0, 1 :: nat]
   \<and> reorderForPreVertexCache (Some exampleGeometry) = Inr exampleReordered
   \<and> indexList exampleReordered
       = Some (map (\<lambda>x. Some (firstReferenceRank [2, 2, 0, 1] x)) [2, 2, 0, 1])
   \<and> list_all2 (attributeMoved [2, 2, 0, 1])
         (attributes exampleGeometry) (attributes exampleReordered)"
proof -
  have n: "computeNumberOfVertices exampleGeometry = Inr 4"
    by (simp add: exampleGeometry_def computeNumberOfVertices_def)
  have idx: "indexList exampleGeometry = Some (map Some [2, 2, 0, 1])"
    by (simp add: exampleGeometry_def)
  have valid: "\<forall>x\<in>set [2, 2, 0, 1 :: nat]. x < 4"
    by simp
  have run: "reorderForPreVertexCache (Some exampleGeometry) = Inr exampleReordered"
    by code_simp
  from reorderForPreVertexCache_first_reference_order [OF n idx valid] run
  have "indexList exampleReordered
          = Some (map (\<lambda>x. Some (firstReferenceRank [2, 2, 0, 1] x)) [2, 2, 0, 1])
        \<and> list_all2 (attributeMoved [2, 2, 0, 1])
            (attributes exampleGeometry) (attributes exampleReordered)"
    by auto
  with n idx run show ?thesis
    by simp
qed

text \<open>
  C5. The claim says that an index not below the number of vertices makes
  \<^verbatim>\<open>reorderForPreVertexCache\<close> throw. The test \<^verbatim>\<open>tempIndex >= numVertices\<close>
  stands in the branch taken only when the cross reference holds \<open>-1\<close> at the index,
  and it holds \<open>-1\<close> only below \<^verbatim>\<open>numVertices\<close>: for an index out of range the
  read gives \<^verbatim>\<open>undefined\<close>, which is not \<open>-1\<close>, and \<^verbatim>\<open>undefined\<close> is emitted.
  With one vertex and the index list \<open>[1]\<close> the call returns an index list holding
  \<^verbatim>\<open>undefined\<close> and an emptied attribute.
\<close>

theorem reorderForPreVertexCache_out_of_range_returns:
  "computeNumberOfVertices outOfRangeGeometry = Inr 1
   \<and> reorderForPreVertexCache (Some outOfRangeGeometry)
     = Inr \<lparr>attributes = [(''position'', \<lparr>componentDatatype = FLOAT,
               componentsPerAttribute = 3, normalize = False, values = Some []\<rparr>)],
            indexList = Some [None],
            primitiveType = TRIANGLES, boundingSphere = None\<rparr>"
  by code_simp

text \<open>
  The scan of the index list never throws: whenever the number of vertices can be
  computed, the function returns.
\<close>

lemma reorderForPreVertexCache_returns:
  "computeNumberOfVertices g = Inr n \<Longrightarrow> \<exists>g'. reorderForPreVertexCache (Some g) = Inr g'"
  by (cases "indexList g")
     (simp_all add: reorderForPreVertexCache_def reorderIndices_loop_result)

text \<open>
  C6. Whenever \<^verbatim>\<open>reorderForPreVertexCache\<close> returns a geometry, applying it to
  that geometry returns the same geometry again: the same index list and the same
  attribute values. This holds in particular when every vertex is referenced by the
  index list.
\<close>

theorem reorderForPreVertexCache_idempotent:
  assumes "reorderForPreVertexCache (Some g) = Inr g'"
  shows "reorderForPreVertexCache (Some g') = Inr g'"
proof -
  from assms obtain n where n: "computeNumberOfVertices g = Inr n"
    by (auto simp: reorderForPreVertexCache_def split: sum.splits)
  then have uni: "uniformAttributes (attributes g) n" and hv: "hasValues (attributes g)"
    by (auto dest: computeNumberOfVertices_Inr)
  define xs where "xs = (case indexList g of None \<Rightarrow> [] | Some idxs \<Rightarrow> referenced n idxs)"
  define m where "m = card (set xs)"
  have valid: "\<forall>x\<in>set xs. x < n"
    by (auto simp: xs_def referenced_lt split: option.splits)
  let ?attrs' = "reorderAttributes n (xrefOf n xs) (attributes g)"
  have uni': "uniformAttributes ?attrs' m"
    unfolding m_def using valid uni by (rule reorderAttributes_uniform)
  have hv': "hasValues ?attrs'"
    using hv by (simp add: reorderAttributes_hasValues)
  have attrs'': "reorderAttributes m (map int [0..<m]) ?attrs' = ?attrs'"
    using uni' by (rule reorderAttributes_identity)
  show ?thesis
  proof (cases "indexList g")
    case None
    then have xs: "xs = []" by (simp add: xs_def)
    then have m0: "m = 0" by (simp add: m_def)
    have g': "g' = g\<lparr>attributes := ?attrs'\<rparr>"
      using assms n None by (simp add: reorderForPreVertexCache_def xs xrefOf_empty)
    have "computeNumberOfVertices g' = Inr m"
      using uni' hv' by (intro computeNumberOfVertices_uniform) (simp_all add: g')
    then show ?thesis
      using attrs'' None by (simp add: reorderForPreVertexCache_def g' m0)
  next
    case (Some idxs)
    then have xs: "xs = referenced n idxs" by (simp add: xs_def)
    let ?idxs' = "map (renumber n xs) idxs"
    have g': "g' = g\<lparr>indexList := Some ?idxs', attributes := ?attrs'\<rparr>"
      using assms n Some by (simp add: reorderForPreVertexCache_def reorderIndices_loop_result xs)
    have cnv: "computeNumberOfVertices g' = Inr m"
      using uni' hv' by (intro computeNumberOfVertices_uniform) (simp_all add: g')
    have R': "referenced m ?idxs' = map (firstReferenceRank xs) xs"
      unfolding m_def using referenced_renumber [of n idxs xs] by (simp add: xs)
    have "xrefOf m (map (firstReferenceRank xs) xs) = map int [0..<m]"
      unfolding m_def by (rule xrefOf_second_pass)
    then have xref': "xrefOf m (referenced m ?idxs') = map int [0..<m]"
      by (simp only: R')
    have "map (renumber m (map (firstReferenceRank xs) xs)) ?idxs' = ?idxs'"
      unfolding m_def map_map
      by (rule map_cong [OF refl]) (simp add: renumber_fixpoint [OF _ xs])
    then have idx'': "map (renumber m (referenced m ?idxs')) ?idxs' = ?idxs'"
      by (simp only: R')
    show ?thesis
      using cnv attrs'' xref' idx''
      by (simp add: reorderForPreVertexCache_def g' reorderIndices_loop_result)
  qed
qed

theorem reorderForPreVertexCache_idempotent_witness:
  "reorderForPreVertexCache (Some exampleGeometry) = Inr exampleReordered
   \<and> reorderForPreVertexCache (Some exampleReordered) = Inr exampleReordered"
proof -
  have run: "reorderForPreVertexCache (Some exampleGeometry) = Inr exampleReordered"
    by code_simp
  from reorderForPreVertexCache_idempotent [OF run] run show ?thesis
    by simp
qed

section \<open>Properties of computeNormal\<close>

declare faceNormals_loop.simps [simp del]
declare indexOffsets_loop.simps [simp del]
declare normalIndices_loop.simps [simp del]
declare sumNormals_loop.simps [simp del]
declare vertexNormals_loop.simps [simp del]

lemma cornersBelow_Suc:
  "cornersBelow indices (Suc p) v
   = cornersBelow indices p v @ (if indices ! p = Some v then [p] else [])"
  by (simp add: cornersBelow_def)

lemma cornersBelow_length: "cornersBelow indices (length indices) v = corners indices v"
  by (simp add: cornersBelow_def corners_def)

lemma length_countedData [simp]: "length (countedData indices n p) = n"
  by (simp add: countedData_def)

lemma incrementCount_countedData:
  assumes "indices ! p = Some x" "x < n"
  shows "incrementCount (countedData indices n p) (Some x) = Some (countedData indices n (Suc p))"
proof -
  have "(countedData indices n p)[x := (countedData indices n p ! x)
            \<lparr>count := count (countedData indices n p ! x) + 1\<rparr>]
        = countedData indices n (Suc p)"
  proof (rule nth_equalityI)
    fix i assume "i < length ((countedData indices n p)[x := (countedData indices n p ! x)
            \<lparr>count := count (countedData indices n p ! x) + 1\<rparr>])"
    then have i: "i < n" by simp
    show "(countedData indices n p)[x := (countedData indices n p ! x)
            \<lparr>count := count (countedData indices n p ! x) + 1\<rparr>] ! i
          = countedData indices n (Suc p) ! i"
      using i assms by (cases "i = x") (simp_all add: countedData_def cornersBelow_Suc)
  qed simp
  with assms show ?thesis by (simp add: incrementCount_def)
qed

lemma length_facesDone [simp]: "length (facesDone ops vertices indices T k) = T"
  by (simp add: facesDone_def)

lemma jsset_facesDone:
  assumes "k < T"
  shows "jsset (facesDone ops vertices indices T k) k (Some (faceNormal ops vertices indices k))
         = facesDone ops vertices indices T (Suc k)"
proof -
  have "(facesDone ops vertices indices T k)[k := Some (faceNormal ops vertices indices k)]
        = facesDone ops vertices indices T (Suc k)"
    by (rule nth_equalityI) (auto simp: facesDone_def nth_list_update less_Suc_eq)
  with assms show ?thesis by (simp add: jsset_def)
qed

lemma faceNormals_loop_spec:
  assumes len: "length indices = 3 * T"
    and valid: "\<And>q. q < 3 * T \<Longrightarrow> \<exists>x<n. indices ! q = Some x"
    and k: "k \<le> T"
  shows "faceNormals_loop ops vertices indices (3 * k) k (countedData indices n (3 * k))
           (facesDone ops vertices indices T k)
         = Inr (countedData indices n (3 * T), facesDone ops vertices indices T T)"
  using k
proof (induction k rule: inc_induct)
  case base
  show ?case by (subst faceNormals_loop.simps) (simp add: len)
next
  case (step k)
  from step have lt: "3 * k < length indices" "3 * k + 1 < 3 * T" "3 * k + 2 < 3 * T" "3 * k < 3 * T"
    using len by simp_all
  obtain x0 where x0: "x0 < n" "indices ! (3 * k) = Some x0" using valid [OF lt(4)] by blast
  obtain x1 where x1: "x1 < n" "indices ! (3 * k + 1) = Some x1" using valid [OF lt(2)] by blast
  obtain x2 where x2: "x2 < n" "indices ! (3 * k + 2) = Some x2" using valid [OF lt(3)] by blast
  have g0: "jsget indices (3 * k) = Some x0" using x0 lt len by (simp add: jsget_def)
  have g1: "jsget indices (3 * k + 1) = Some x1" using x1 lt len by (simp add: jsget_def)
  have g2: "jsget indices (3 * k + 2) = Some x2" using x2 lt len by (simp add: jsget_def)
  have c0: "incrementCount (countedData indices n (3 * k)) (Some x0)
            = Some (countedData indices n (Suc (3 * k)))"
    using x0 by (intro incrementCount_countedData) simp_all
  have c1: "incrementCount (countedData indices n (Suc (3 * k))) (Some x1)
            = Some (countedData indices n (Suc (Suc (3 * k))))"
    using x1 by (intro incrementCount_countedData) simp_all
  have e3: "Suc (Suc (Suc (3 * k))) = 3 * Suc k" by simp
  have c2: "incrementCount (countedData indices n (Suc (Suc (3 * k)))) (Some x2)
            = Some (countedData indices n (3 * Suc k))"
    using x2 incrementCount_countedData [of indices "Suc (Suc (3 * k))" x2 n]
    unfolding e3 by simp
  have fn: "c3cross ops
              (c3subtract ops (vertexAt vertices (Some x1)) (vertexAt vertices (Some x0)))
              (c3subtract ops (vertexAt vertices (Some x2)) (vertexAt vertices (Some x0)))
            = faceNormal ops vertices indices k"
    unfolding faceNormal_def Let_def g0 g1 g2 by (rule refl)
  have "faceNormals_loop ops vertices indices (3 * k) k (countedData indices n (3 * k))
           (facesDone ops vertices indices T k)
        = faceNormals_loop ops vertices indices (3 * k + 3) (k + 1)
            (countedData indices n (3 * Suc k)) (facesDone ops vertices indices T (Suc k))"
    using lt step.hyps
    by (subst faceNormals_loop.simps)
       (simp add: g0 g1 [simplified] g2 [simplified] c0 c1 c2 fn jsset_facesDone Let_def
          del: mult_Suc_right)
  moreover have "3 * k + 3 = 3 * Suc k" "k + 1 = Suc k" by simp_all
  ultimately show ?case using step.IH by (simp del: mult_Suc_right)
qed

lemma countedData_full: "countedData indices n (length indices) = offsetData indices n 0"
  by (simp add: countedData_def offsetData_def cornersBelow_length)

lemma offsetData_full: "offsetData indices n n = filledData indices n 0"
  by (simp add: offsetData_def filledData_def cornersBelow_def)

lemma bucketOffset_Suc:
  "bucketOffset indices (Suc v) = bucketOffset indices v + length (corners indices v)"
  by (simp add: bucketOffset_def)

lemma indexOffsets_loop_spec:
  assumes "i \<le> n"
  shows "indexOffsets_loop n i (bucketOffset indices i) (offsetData indices n i)
         = offsetData indices n n"
  using assms
proof (induction i rule: inc_induct)
  case base
  show ?case by (subst indexOffsets_loop.simps) simp
next
  case (step i)
  have upd: "(offsetData indices n i)[i := (offsetData indices n i ! i)
               \<lparr>indexOffset := indexOffset (offsetData indices n i ! i) + bucketOffset indices i\<rparr>]
             = offsetData indices n (Suc i)"
  proof (rule nth_equalityI)
    fix k assume "k < length ((offsetData indices n i)[i := (offsetData indices n i ! i)
               \<lparr>indexOffset := indexOffset (offsetData indices n i ! i) + bucketOffset indices i\<rparr>])"
    then have k: "k < n" by (simp add: offsetData_def)
    show "(offsetData indices n i)[i := (offsetData indices n i ! i)
               \<lparr>indexOffset := indexOffset (offsetData indices n i ! i) + bucketOffset indices i\<rparr>] ! k
          = offsetData indices n (Suc i) ! k"
      using k step.hyps by (cases "k = i") (auto simp: offsetData_def)
  qed (simp add: offsetData_def)
  have cnt: "count (offsetData indices n i ! i) = length (corners indices i)"
    using step.hyps by (simp add: offsetData_def)
  have "indexOffsets_loop n i (bucketOffset indices i) (offsetData indices n i)
        = indexOffsets_loop n (i + 1) (bucketOffset indices (Suc i)) (offsetData indices n (Suc i))"
    using step.hyps
    by (subst indexOffsets_loop.simps) (simp add: upd cnt bucketOffset_Suc)
  with step.IH show ?case by simp
qed

lemma recordNormalIndex_filled:
  assumes "indices ! p = Some x" "x < n"
  shows "recordNormalIndex (filledData indices n p, placed indices p) (Some x) (p div 3)
         = Some (filledData indices n (Suc p), placed indices (Suc p))"
proof -
  have "(filledData indices n p)[x := (filledData indices n p ! x)
            \<lparr>currentCount := currentCount (filledData indices n p ! x) + 1\<rparr>]
        = filledData indices n (Suc p)"
  proof (rule nth_equalityI)
    fix i assume "i < length ((filledData indices n p)[x := (filledData indices n p ! x)
            \<lparr>currentCount := currentCount (filledData indices n p ! x) + 1\<rparr>])"
    then have i: "i < n" by (simp add: filledData_def)
    show "(filledData indices n p)[x := (filledData indices n p ! x)
            \<lparr>currentCount := currentCount (filledData indices n p ! x) + 1\<rparr>] ! i
          = filledData indices n (Suc p) ! i"
      using i assms by (cases "i = x") (simp_all add: filledData_def cornersBelow_Suc)
  qed (simp add: filledData_def)
  with assms show ?thesis
    by (simp add: recordNormalIndex_def filledData_def Let_def)
qed

lemma normalIndices_loop_spec:
  assumes len: "length indices = 3 * T"
    and valid: "\<And>q. q < 3 * T \<Longrightarrow> \<exists>x<n. indices ! q = Some x"
    and k: "k \<le> T"
  shows "normalIndices_loop indices (3 * k) k (filledData indices n (3 * k), placed indices (3 * k))
         = Inr (filledData indices n (3 * T), placed indices (3 * T))"
  using k
proof (induction k rule: inc_induct)
  case base
  show ?case by (subst normalIndices_loop.simps) (simp add: len)
next
  case (step k)
  from step have lt: "3 * k < length indices" "3 * k + 1 < 3 * T" "3 * k + 2 < 3 * T" "3 * k < 3 * T"
    using len by simp_all
  obtain x0 where x0: "x0 < n" "indices ! (3 * k) = Some x0" using valid [OF lt(4)] by blast
  obtain x1 where x1: "x1 < n" "indices ! (3 * k + 1) = Some x1" using valid [OF lt(2)] by blast
  obtain x2 where x2: "x2 < n" "indices ! (3 * k + 2) = Some x2" using valid [OF lt(3)] by blast
  have g0: "jsget indices (3 * k) = Some x0" using x0 lt len by (simp add: jsget_def)
  have g1: "jsget indices (3 * k + 1) = Some x1" using x1 lt len by (simp add: jsget_def)
  have g2: "jsget indices (3 * k + 2) = Some x2" using x2 lt len by (simp add: jsget_def)
  have d0: "(3 * k) div 3 = k" and d1: "Suc (3 * k) div 3 = k" and d2: "Suc (Suc (3 * k)) div 3 = k"
    by simp_all
  have r0: "recordNormalIndex (filledData indices n (3 * k), placed indices (3 * k)) (Some x0) k
            = Some (filledData indices n (Suc (3 * k)), placed indices (Suc (3 * k)))"
    using recordNormalIndex_filled [of indices "3 * k" x0 n] x0 by (simp only: d0)
  have r1: "recordNormalIndex (filledData indices n (Suc (3 * k)), placed indices (Suc (3 * k)))
              (Some x1) k
            = Some (filledData indices n (Suc (Suc (3 * k))), placed indices (Suc (Suc (3 * k))))"
    using recordNormalIndex_filled [of indices "Suc (3 * k)" x1 n] x1 by (simp add: d1)
  have e3: "Suc (Suc (Suc (3 * k))) = 3 * Suc k" by simp
  have r2: "recordNormalIndex (filledData indices n (Suc (Suc (3 * k))),
               placed indices (Suc (Suc (3 * k)))) (Some x2) k
            = Some (filledData indices n (3 * Suc k), placed indices (3 * Suc k))"
    using recordNormalIndex_filled [of indices "Suc (Suc (3 * k))" x2 n] x2
    unfolding e3 by (simp add: d2)
  have "normalIndices_loop indices (3 * k) k (filledData indices n (3 * k), placed indices (3 * k))
        = normalIndices_loop indices (3 * k + 3) (k + 1)
            (filledData indices n (3 * Suc k), placed indices (3 * Suc k))"
    using lt step.hyps
    by (subst normalIndices_loop.simps)
       (simp add: g0 g1 [simplified] g2 [simplified] r0 r1 r2 del: mult_Suc_right placed.simps)
  moreover have "3 * k + 3 = 3 * Suc k" "k + 1 = Suc k" by simp_all
  ultimately show ?case using step.IH by (simp del: mult_Suc_right placed.simps)
qed

text \<open>The buckets of different vertices do not overlap.\<close>

lemma bucketOffset_mono:
  "u < w \<Longrightarrow> bucketOffset indices u + length (corners indices u) \<le> bucketOffset indices w"
proof (induction w)
  case 0
  then show ?case by simp
next
  case (Suc w)
  show ?case
  proof (cases "u = w")
    case True
    then show ?thesis by (simp add: bucketOffset_Suc)
  next
    case False
    with Suc have "bucketOffset indices u + length (corners indices u) \<le> bucketOffset indices w"
      by simp
    then show ?thesis by (simp add: bucketOffset_Suc)
  qed
qed

lemma bucket_disjoint:
  assumes "v \<noteq> x" "m < length (corners indices v)" "c < length (corners indices x)"
  shows "bucketOffset indices v + m \<noteq> bucketOffset indices x + c"
proof (cases "v < x")
  case True
  from bucketOffset_mono [OF True, of indices] assms show ?thesis by simp
next
  case False
  with assms have "x < v" by simp
  from bucketOffset_mono [OF this, of indices] assms show ?thesis by simp
qed

lemma cornersBelow_prefix:
  assumes "p \<le> length indices"
  shows "corners indices v = cornersBelow indices p v
           @ filter (\<lambda>q. indices ! q = Some v) [p..<length indices]"
proof -
  have "[0..<length indices] = [0..<p] @ [p..<length indices]"
    using assms by (metis le_add_diff_inverse upt_add_eq_append zero_le)
  then show ?thesis by (simp add: corners_def cornersBelow_def)
qed

lemma cornersBelow_le:
  "p \<le> length indices \<Longrightarrow> length (cornersBelow indices p v) \<le> length (corners indices v)"
  using cornersBelow_prefix [of p indices v] by simp

lemma cornersBelow_lt:
  assumes "p < length indices" "indices ! p = Some x"
  shows "length (cornersBelow indices p x) < length (corners indices x)"
proof -
  have "length (cornersBelow indices (Suc p) x) \<le> length (corners indices x)"
    using assms by (intro cornersBelow_le) simp
  with assms show ?thesis by (simp add: cornersBelow_Suc)
qed

lemma placed_bucket:
  assumes "p \<le> length indices" "m < length (cornersBelow indices p v)"
  shows "jsget (placed indices p) (bucketOffset indices v + m)
         = Some ((cornersBelow indices p v ! m) div 3)"
  using assms
proof (induction p arbitrary: m)
  case 0
  then show ?case by (simp add: cornersBelow_def)
next
  case (Suc p)
  then have p: "p < length indices" by simp
  show ?case
  proof (cases "indices ! p")
    case None
    with Suc show ?thesis by (simp add: cornersBelow_Suc)
  next
    case (Some x)
    let ?pos = "bucketOffset indices x + length (cornersBelow indices p x)"
    have pl: "placed indices (Suc p) = jsset (placed indices p) ?pos (Some (p div 3))"
      by (simp add: Some)
    show ?thesis
    proof (cases "v = x")
      case True
      show ?thesis
      proof (cases "m = length (cornersBelow indices p x)")
        case hit: True
        then show ?thesis
          by (simp add: pl True jsget_jsset cornersBelow_Suc Some)
      next
        case False
        with Suc.prems True Some have m: "m < length (cornersBelow indices p x)"
          by (simp add: cornersBelow_Suc)
        with Suc.IH [of m] p True have "jsget (placed indices p) (bucketOffset indices x + m)
              = Some ((cornersBelow indices p x ! m) div 3)" by simp
        with False m show ?thesis
          by (simp add: pl True jsget_jsset cornersBelow_Suc Some nth_append)
      qed
    next
      case False
      with Suc.prems Some have m: "m < length (cornersBelow indices p v)"
        by (simp add: cornersBelow_Suc)
      then have "m < length (corners indices v)"
        using cornersBelow_le [of p indices v] p by simp
      moreover have "length (cornersBelow indices p x) < length (corners indices x)"
        using p Some by (rule cornersBelow_lt)
      ultimately have "bucketOffset indices v + m \<noteq> ?pos"
        using False by (intro bucket_disjoint)
      with Suc.IH [of m] p m False Some show ?thesis
        by (simp add: pl jsget_jsset cornersBelow_Suc)
    qed
  qed
qed

lemma corners_lt: "m < length (corners indices v) \<Longrightarrow> corners indices v ! m < length indices"
proof -
  assume "m < length (corners indices v)"
  then have "corners indices v ! m \<in> set (corners indices v)" by simp
  then show ?thesis by (simp add: corners_def)
qed

lemma sumNormals_loop_spec:
  assumes len: "length indices = 3 * T"
    and d: "indexOffset d = bucketOffset indices v" "count d = length (corners indices v)"
    and j: "j \<le> length (corners indices v)"
  shows "sumNormals_loop ops (facesDone ops vertices indices T T) (placed indices (3 * T)) d j normal
         = Inr (foldl (c3add ops) normal
                  (map (\<lambda>m. faceNormal ops vertices indices (corners indices v ! m div 3))
                     [j..<length (corners indices v)]))"
  using j
proof (induction j arbitrary: normal rule: inc_induct)
  case base
  show ?case by (subst sumNormals_loop.simps) (simp add: d)
next
  case (step j)
  have "cornersBelow indices (3 * T) v = corners indices v"
    using cornersBelow_length [of indices v] len by simp
  then have ni: "jsget (placed indices (3 * T)) (bucketOffset indices v + j)
            = Some (corners indices v ! j div 3)"
    using placed_bucket [of "3 * T" indices j v] step.hyps len by simp
  have "corners indices v ! j < 3 * T"
    using corners_lt [of j indices v] step.hyps len by simp
  then have t: "corners indices v ! j div 3 < T" by simp
  then have npt: "jsget (facesDone ops vertices indices T T) (corners indices v ! j div 3)
             = Some (faceNormal ops vertices indices (corners indices v ! j div 3))"
    by (simp add: jsget_def facesDone_def)
  have "sumNormals_loop ops (facesDone ops vertices indices T T) (placed indices (3 * T)) d j normal
        = sumNormals_loop ops (facesDone ops vertices indices T T) (placed indices (3 * T)) d (Suc j)
            (c3add ops normal (faceNormal ops vertices indices (corners indices v ! j div 3)))"
    using step.hyps by (subst sumNormals_loop.simps) (simp add: d ni npt)
  also have "\<dots> = Inr (foldl (c3add ops)
                  (c3add ops normal (faceNormal ops vertices indices (corners indices v ! j div 3)))
                  (map (\<lambda>m. faceNormal ops vertices indices (corners indices v ! m div 3))
                     [Suc j..<length (corners indices v)]))"
    by (rule step.IH)
  finally show ?case using step.hyps by (simp add: upt_conv_Cons)
qed

lemma sumNormals_loop_all:
  assumes "length indices = 3 * T"
    and "indexOffset d = bucketOffset indices v" "count d = length (corners indices v)"
  shows "sumNormals_loop ops (facesDone ops vertices indices T T) (placed indices (3 * T)) d 0 normal
         = Inr (foldl (c3add ops) normal
                  (map (faceNormal ops vertices indices) (adjacentTriangles indices v)))"
proof -
  have "map (\<lambda>m. faceNormal ops vertices indices (corners indices v ! m div 3))
          [0..<length (corners indices v)]
        = map (\<lambda>q. faceNormal ops vertices indices (q div 3)) (corners indices v)"
    by (rule nth_equalityI) simp_all
  then show ?thesis
    using sumNormals_loop_spec [OF assms, of 0 ops vertices normal]
    by (simp add: adjacentTriangles_def comp_def)
qed

lemma jsget_storeNormal:
  "jsget (storeNormal nv i3 (x, y, z)) q
   = (if q = i3 then x else if q = i3 + 1 then y else if q = i3 + 2 then z else jsget nv q)"
  by (simp add: storeNormal_def jsget_jsset)

lemma normalAt_storeNormal_same: "normalAt (storeNormal nv (i * 3) n) i = n"
  by (cases n) (simp add: normalAt_def jsget_storeNormal mult.commute)

lemma vertexNormals_loop_spec:
  assumes len: "length indices = 3 * T"
    and i: "i \<le> n"
  shows "\<exists>nv'. vertexNormals_loop ops (filledData indices n (3 * T))
                 (facesDone ops vertices indices T T) (placed indices (3 * T)) n i nv = Inr nv'
               \<and> (\<forall>v. i \<le> v \<and> v < n \<longrightarrow> normalAt nv' v = vertexNormal ops vertices indices v)
               \<and> (\<forall>q<3 * i. jsget nv' q = jsget nv q)"
  using i
proof (induction i arbitrary: nv rule: inc_induct)
  case base
  show ?case by (subst vertexNormals_loop.simps) auto
next
  case (step i)
  let ?d = "filledData indices n (3 * T) ! i"
  have d: "indexOffset ?d = bucketOffset indices i" "count ?d = length (corners indices i)"
    using step.hyps by (simp_all add: filledData_def)
  have adj: "adjacentTriangles indices i = [] \<longleftrightarrow> length (corners indices i) = 0"
    by (simp add: adjacentTriangles_def)
  define nrm where "nrm = vertexNormal ops vertices indices i"
  have unfold: "vertexNormals_loop ops (filledData indices n (3 * T))
                 (facesDone ops vertices indices T T) (placed indices (3 * T)) n i nv
        = vertexNormals_loop ops (filledData indices n (3 * T))
                 (facesDone ops vertices indices T T) (placed indices (3 * T)) n (Suc i)
                 (storeNormal nv (i * 3) nrm)"
  proof (cases "length (corners indices i) = 0")
    case True
    then show ?thesis
      using step.hyps
      by (subst vertexNormals_loop.simps)
         (simp add: d Let_def nrm_def vertexNormal_def adj)
  next
    case False
    then show ?thesis
      using step.hyps sumNormals_loop_all [OF len d, of ops vertices "(Some 0, Some 0, Some 0)"]
      by (subst vertexNormals_loop.simps)
         (simp add: d Let_def nrm_def vertexNormal_def adj)
  qed
  from step.IH [of "storeNormal nv (i * 3) nrm"]
  obtain nv' where nv': "vertexNormals_loop ops (filledData indices n (3 * T))
                 (facesDone ops vertices indices T T) (placed indices (3 * T)) n (Suc i)
                 (storeNormal nv (i * 3) nrm) = Inr nv'"
      "\<forall>v. Suc i \<le> v \<and> v < n \<longrightarrow> normalAt nv' v = vertexNormal ops vertices indices v"
      "\<forall>q<3 * Suc i. jsget nv' q = jsget (storeNormal nv (i * 3) nrm) q"
    by blast
  have "normalAt nv' i = normalAt (storeNormal nv (i * 3) nrm) i"
    using nv'(3) by (simp add: normalAt_def)
  then have at_i: "normalAt nv' i = vertexNormal ops vertices indices i"
    by (simp add: normalAt_storeNormal_same nrm_def)
  have below: "\<forall>q<3 * i. jsget nv' q = jsget nv q"
  proof (intro allI impI)
    fix q assume q: "q < 3 * i"
    then have "jsget nv' q = jsget (storeNormal nv (i * 3) nrm) q"
      using nv'(3) by simp
    also have "\<dots> = jsget nv q"
      using q by (cases nrm) (simp add: jsget_storeNormal)
    finally show "jsget nv' q = jsget nv q" .
  qed
  have "\<forall>v. i \<le> v \<and> v < n \<longrightarrow> normalAt nv' v = vertexNormal ops vertices indices v"
  proof (intro allI impI)
    fix v assume v: "i \<le> v \<and> v < n"
    show "normalAt nv' v = vertexNormal ops vertices indices v"
    proof (cases "v = i")
      case True
      with at_i show ?thesis by simp
    next
      case False
      with v nv'(2) show ?thesis by simp
    qed
  qed
  with unfold nv'(1) below show ?case by simp
qed

lemma map_of_setAttributeValues:
  "map_of (setAttributeValues name vs attrs) k
   = (if k = name then map_option (\<lambda>a. a\<lparr>values := Some vs\<rparr>) (map_of attrs name)
      else map_of attrs k)"
  by (induction attrs) auto

lemma map_of_withNormalAttribute:
  "map_of (withNormalAttribute n attrs) ''normal''
   = (case map_of attrs ''normal'' of
        None \<Rightarrow> Some \<lparr>componentDatatype = FLOAT, componentsPerAttribute = 3,
                    normalize = False, values = Some (replicate (n * 3) None)\<rparr>
      | Some a \<Rightarrow> Some a)"
  by (simp add: withNormalAttribute_def map_add_def split: option.splits)

lemma upt3: "[0..<3] = [0, 1, 2]"
  by (simp add: upt_rec)

lemma triangle_vertexNormal:
  "v < 3 \<Longrightarrow> vertexNormal realCartesian3
      [Some 0, Some 0, Some 0, Some 1, Some 0, Some 0, Some 0, Some 1, Some 0]
      [Some 0, Some 1, Some 2] v = (Some 0, Some 0, Some 1)"
proof -
  assume "v < 3"
  then consider "v = 0" | "v = 1" | "v = 2" by linarith
  then show ?thesis
    by cases
      (simp_all add: vertexNormal_def adjacentTriangles_def corners_def upt3 faceNormal_def
         vertexAt_def jsget_def realCartesian3_def Cartesian3_subtract_def Cartesian3_cross_def
         Cartesian3_add_def Cartesian3_normalize_def num2_def)
qed

text \<open>
  C8. For a \<^verbatim>\<open>TRIANGLES\<close> geometry with a valid position attribute and an index
  list of whole triangles over existing vertices, \<^verbatim>\<open>computeNormal\<close> returns, and
  the normal attribute holds for every vertex \<open>v\<close> the value \<open>vertexNormal\<close>: the
  normalised sum of the unnormalised cross products \<open>(v1 - v0) \<times> (v2 - v0)\<close> of the
  triangles adjacent to \<open>v\<close>, and \<open>(0, 0, 1)\<close> for a vertex no triangle refers to.
  This holds for every choice of the vector operations. For the spec's triangle
  \<open>(0,0,0), (1,0,0), (0,1,0)\<close>, with the vector arithmetic over the reals, all three
  vertices get \<open>(0, 0, 1)\<close>.
\<close>

theorem computeNormal_vertex_normals:
  assumes pos: "map_of (attributes g) ''position'' = Some position"
    and vals: "values position = Some vertices"
    and cpa: "componentsPerAttribute position = 3"
    and vlen: "length vertices = 3 * numVertices"
    and tri: "primitiveType g = TRIANGLES"
    and idx: "indexList g = Some indices"
    and len: "length indices = 3 * T" and T: "0 < T"
    and valid: "\<forall>q<length indices. \<exists>x<numVertices. indices ! q = Some x"
    and nrm: "\<forall>a. map_of (attributes g) ''normal'' = Some a \<longrightarrow> values a \<noteq> None"
  shows "\<exists>g' normal normalValues.
           computeNormal ops (Some g) = Inr g'
           \<and> map_of (attributes g') ''normal'' = Some normal
           \<and> values normal = Some normalValues
           \<and> (\<forall>v<numVertices. normalAt normalValues v = vertexNormal ops vertices indices v)
           \<and> indexList g' = indexList g \<and> primitiveType g' = primitiveType g"
proof -
  have valid': "\<And>q. q < 3 * T \<Longrightarrow> \<exists>x<numVertices. indices ! q = Some x"
    using valid len by simp
  have nV: "length vertices div 3 = numVertices" using vlen by simp
  have nT: "length indices div 3 = T" using len by simp
  have faces: "faceNormals_loop ops vertices indices 0 0
          (replicate numVertices \<lparr>indexOffset = 0, count = 0, currentCount = 0\<rparr>)
          (replicate T None)
        = Inr (countedData indices numVertices (3 * T), facesDone ops vertices indices T T)"
  proof -
    have "countedData indices numVertices 0
          = replicate numVertices \<lparr>indexOffset = 0, count = 0, currentCount = 0\<rparr>"
      by (simp add: countedData_def cornersBelow_def map_replicate_const)
    moreover have "facesDone ops vertices indices T 0 = replicate T None"
      by (simp add: facesDone_def map_replicate_const)
    ultimately show ?thesis
      using faceNormals_loop_spec [OF len valid', of 0 ops vertices] by simp
  qed
  have offs: "indexOffsets_loop numVertices 0 0 (countedData indices numVertices (3 * T))
              = filledData indices numVertices 0"
    using indexOffsets_loop_spec [of 0 numVertices indices] countedData_full [of indices numVertices]
    by (simp add: len offsetData_full bucketOffset_def)
  have fill: "normalIndices_loop indices 0 0
                (filledData indices numVertices 0, replicate (3 * T) None)
              = Inr (filledData indices numVertices (3 * T), placed indices (3 * T))"
    using normalIndices_loop_spec [OF len valid', of 0] by (simp add: len)
  obtain a0 nv0 where a0: "map_of (withNormalAttribute numVertices (attributes g)) ''normal'' = Some a0"
      "values a0 = Some nv0"
    using nrm by (cases "map_of (attributes g) ''normal''") (auto simp: map_of_withNormalAttribute)
  obtain nv' where nv': "vertexNormals_loop ops (filledData indices numVertices (3 * T))
                 (facesDone ops vertices indices T T) (placed indices (3 * T)) numVertices 0 nv0
               = Inr nv'"
      "\<forall>v. 0 \<le> v \<and> v < numVertices \<longrightarrow> normalAt nv' v = vertexNormal ops vertices indices v"
    using vertexNormals_loop_spec [OF len, of 0 numVertices ops vertices nv0] by blast
  let ?g' = "g\<lparr>attributes := setAttributeValues ''normal'' nv'
                 (withNormalAttribute numVertices (attributes g))\<rparr>"
  have "computeNormal ops (Some g) = Inr ?g'"
    using pos vals cpa vlen tri idx len T
    by (simp add: computeNormal_def nV nT faces offs fill a0 nv' Let_def)
  moreover have "map_of (attributes ?g') ''normal'' = Some (a0\<lparr>values := Some nv'\<rparr>)"
    by (simp add: map_of_setAttributeValues a0)
  ultimately show ?thesis
    using nv'(2) by (intro exI [of _ ?g'] exI [of _ "a0\<lparr>values := Some nv'\<rparr>"] exI [of _ nv']) simp
qed

theorem computeNormal_vertex_normals_witness:
  "\<exists>g' normal normalValues.
      computeNormal realCartesian3 (Some triangleGeometry) = Inr g'
      \<and> map_of (attributes g') ''normal'' = Some normal
      \<and> values normal = Some normalValues
      \<and> normalAt normalValues 0 = (Some 0, Some 0, Some 1)
      \<and> normalAt normalValues 1 = (Some 0, Some 0, Some 1)
      \<and> normalAt normalValues 2 = (Some 0, Some 0, Some 1)"
proof -
  let ?vertices = "[Some 0, Some 0, Some 0, Some 1, Some 0, Some 0, Some 0, Some 1, Some (0::real)]"
  let ?position = "\<lparr>componentDatatype = FLOAT, componentsPerAttribute = 3, normalize = False,
                     values = Some ?vertices\<rparr>"
  let ?indices = "[Some 0, Some 1, Some (2::nat)]"
  have pos: "map_of (attributes triangleGeometry) ''position'' = Some ?position"
    by (simp add: triangleGeometry_def)
  have vals: "values ?position = Some ?vertices" by simp
  have cpa: "componentsPerAttribute ?position = 3" by simp
  have vlen: "length ?vertices = 3 * 3" by simp
  have tri: "primitiveType triangleGeometry = TRIANGLES" by (simp add: triangleGeometry_def)
  have idx: "indexList triangleGeometry = Some ?indices" by (simp add: triangleGeometry_def)
  have len: "length ?indices = 3 * 1" by simp
  have valid: "\<forall>q<length ?indices. \<exists>x<3. ?indices ! q = Some x"
    by (simp add: less_Suc_eq numeral_3_eq_3 all_conj_distrib)
  have nrm: "\<forall>a. map_of (attributes triangleGeometry) ''normal'' = Some a \<longrightarrow> values a \<noteq> None"
    by (simp add: triangleGeometry_def)
  from computeNormal_vertex_normals [OF pos vals cpa vlen tri idx len _ valid nrm, of realCartesian3]
  obtain g' normal normalValues where r:
    "computeNormal realCartesian3 (Some triangleGeometry) = Inr g'"
    "map_of (attributes g') ''normal'' = Some normal"
    "values normal = Some normalValues"
    "\<forall>v<3. normalAt normalValues v = vertexNormal realCartesian3 ?vertices ?indices v"
    by auto
  have "\<forall>v<3. normalAt normalValues v = (Some 0, Some 0, Some 1)"
  proof (intro allI impI)
    fix v :: nat assume v: "v < 3"
    with r(4) have "normalAt normalValues v = vertexNormal realCartesian3 ?vertices ?indices v"
      by blast
    also have "\<dots> = (Some 0, Some 0, Some 1)"
      using v by (rule triangle_vertexNormal)
    finally show "normalAt normalValues v = (Some 0, Some 0, Some 1)" .
  qed
  then have "normalAt normalValues 0 = (Some 0, Some 0, Some 1)"
    "normalAt normalValues 1 = (Some 0, Some 0, Some 1)"
    "normalAt normalValues 2 = (Some 0, Some 0, Some 1)"
    by simp_all
  with r(1-3) show ?thesis by blast
qed

text \<open>
  C10. \<^verbatim>\<open>computeNormal\<close> checks the position attribute before it looks at the
  primitive type or the index list: a geometry with an invalid position attribute makes
  it throw a \<^verbatim>\<open>DeveloperError\<close> whatever its primitive type and index list are,
  while a geometry with a valid position attribute that is not \<^verbatim>\<open>TRIANGLES\<close> or
  has no index list is returned unchanged.
\<close>

theorem computeNormal_validates_position_first:
  "(invalidPosition g \<longrightarrow> (\<exists>msg. computeNormal ops (Some g) = Inl (DeveloperError msg)))
   \<and> (\<not> invalidPosition h \<and> (primitiveType h \<noteq> TRIANGLES \<or> indexList h = None)
      \<longrightarrow> computeNormal ops (Some h) = Inr h)"
  by (auto simp: invalidPosition_def computeNormal_def split: option.splits)

theorem computeNormal_validates_position_first_witness:
  "invalidPosition linesGeometry
   \<and> computeNormal realCartesian3 (Some linesGeometry)
     = Inl (DeveloperError ''geometry.attributes.position.values is required'')
   \<and> \<not> invalidPosition linesWithPosition
   \<and> primitiveType linesWithPosition \<noteq> TRIANGLES
   \<and> computeNormal realCartesian3 (Some linesWithPosition) = Inr linesWithPosition"
proof -
  have bad: "invalidPosition linesGeometry"
    by (simp add: invalidPosition_def linesGeometry_def)
  have good: "\<not> invalidPosition linesWithPosition" "primitiveType linesWithPosition \<noteq> TRIANGLES"
    by (simp_all add: invalidPosition_def linesWithPosition_def)
  have msg: "computeNormal realCartesian3 (Some linesGeometry)
             = Inl (DeveloperError ''geometry.attributes.position.values is required'')"
    by (simp add: computeNormal_def linesGeometry_def)
  from computeNormal_validates_position_first
         [of linesGeometry realCartesian3 linesWithPosition] bad good msg
  show ?thesis by simp
qed

section \<open>Properties of combine\<close>

lemma toUint_of_nat: "toUint bits (Some (of_nat n)) = n mod 2 ^ bits"
  by (simp add: toUint_def)

lemma jsadd_of_nat: "jsadd (Some (of_nat a)) (Some (of_nat b)) = Some (of_nat (a + b))"
  by (simp add: jsadd_def)

lemma jsdivide_exact: "0 < c \<Longrightarrow> jsdivide (n * c) c = Some (of_nat n)"
  by (simp add: jsdivide_def)

lemma copyValues_spec:
  "k + length src \<le> length vs \<Longrightarrow>
   copyValues src vs k = (take k vs @ src @ drop (k + length src) vs, k + length src)"
proof (induction src arbitrary: vs k)
  case Nil
  then show ?case by simp
next
  case (Cons v src)
  then have k: "k < length vs" by simp
  have "copyValues (v # src) vs k = copyValues src (vs[k := v]) (Suc k)" by simp
  also have "\<dots> = (take (Suc k) (vs[k := v]) @ src @ drop (Suc k + length src) (vs[k := v]),
                    Suc k + length src)"
    using Cons.prems by (intro Cons.IH) simp
  also have "take (Suc k) (vs[k := v]) = take k vs @ [v]"
    using k by (simp add: take_Suc_conv_app_nth)
  also have "drop (Suc k + length src) (vs[k := v]) = drop (Suc k + length src) vs"
    by simp
  finally show ?case by simp
qed

lemma storeIndices_Uint16:
  "n + length xs \<le> length ys \<Longrightarrow>
   storeIndices (map Some xs) (Some (of_nat off)) (Uint16Array ys) n
   = (Uint16Array (take n ys @ map (\<lambda>x. (off + x) mod 2 ^ 16) xs @ drop (n + length xs) ys),
      n + length xs)"
proof (induction xs arbitrary: ys n)
  case Nil
  then show ?case by simp
next
  case (Cons x xs)
  then have n: "n < length ys" by simp
  let ?ys = "ys[n := (off + x) mod 2 ^ 16]"
  have "storeIndices (map Some (x # xs)) (Some (of_nat off)) (Uint16Array ys) n
        = storeIndices (map Some xs) (Some (of_nat off)) (Uint16Array ?ys) (Suc n)"
    by (simp add: jsadd_of_nat toUint_of_nat del: of_nat_add)
  also have "\<dots> = (Uint16Array (take (Suc n) ?ys @ map (\<lambda>x. (off + x) mod 2 ^ 16) xs
                      @ drop (Suc n + length xs) ?ys), Suc n + length xs)"
    using Cons.prems by (intro Cons.IH) simp
  also have "take (Suc n) ?ys = take n ys @ [(off + x) mod 2 ^ 16]"
    using n by (simp add: take_Suc_conv_app_nth)
  also have "drop (Suc n + length xs) ?ys = drop (Suc n + length xs) ys"
    by simp
  finally show ?case by simp
qed

lemma storeIndices_Uint32:
  "n + length xs \<le> length ys \<Longrightarrow>
   storeIndices (map Some xs) (Some (of_nat off)) (Uint32Array ys) n
   = (Uint32Array (take n ys @ map (\<lambda>x. (off + x) mod 2 ^ 32) xs @ drop (n + length xs) ys),
      n + length xs)"
proof (induction xs arbitrary: ys n)
  case Nil
  then show ?case by simp
next
  case (Cons x xs)
  then have n: "n < length ys" by simp
  let ?ys = "ys[n := (off + x) mod 2 ^ 32]"
  have "storeIndices (map Some (x # xs)) (Some (of_nat off)) (Uint32Array ys) n
        = storeIndices (map Some xs) (Some (of_nat off)) (Uint32Array ?ys) (Suc n)"
    by (simp add: jsadd_of_nat toUint_of_nat del: of_nat_add)
  also have "\<dots> = (Uint32Array (take (Suc n) ?ys @ map (\<lambda>x. (off + x) mod 2 ^ 32) xs
                      @ drop (Suc n + length xs) ?ys), Suc n + length xs)"
    using Cons.prems by (intro Cons.IH) simp
  also have "take (Suc n) ?ys = take n ys @ [(off + x) mod 2 ^ 32]"
    using n by (simp add: take_Suc_conv_app_nth)
  also have "drop (Suc n + length xs) ?ys = drop (Suc n + length xs) ys"
    by simp
  finally show ?case by simp
qed

lemma storeIndices_allocated_first:
  "storeIndices (map Some xs) (Some (of_nat off)) (allocateIndexArray (length xs + m)) 0
   = (if length xs + m < 60 * 1024
      then Uint16Array (map (\<lambda>x. (off + x) mod 2 ^ 16) xs @ replicate m 0)
      else Uint32Array (map (\<lambda>x. (off + x) mod 2 ^ 32) xs @ replicate m 0),
      length xs)"
  by (simp add: allocateIndexArray_def storeIndices_Uint16 storeIndices_Uint32)

lemma combine_two_instances:
  fixes i1 i2 :: "('a :: zero, 'b, 'm) GeometryInstance"
  assumes mm: "modelMatrix i2 = modelMatrix i1"
    and a1: "attributes (geometry i1) = [(name, a1)]"
    and a2: "attributes (geometry i2) = [(name, a2)]"
    and schema: "componentDatatype a1 = componentDatatype a2"
      "componentsPerAttribute a1 = componentsPerAttribute a2" "normalize a1 = normalize a2"
    and c: "0 < componentsPerAttribute a1"
    and v1: "values a1 = Some v1" and l1: "length v1 = n1 * componentsPerAttribute a1"
    and v2: "values a2 = Some v2"
    and x1: "indexList (geometry i1) = Some (map Some xs1)"
    and x2: "indexList (geometry i2) = Some (map Some xs2)"
  shows "combine unionSpheres (Some [i1, i2])
         = Inr \<lparr>attributes = [(name, a1\<lparr>values := Some (v1 @ v2)\<rparr>)],
                indexList = Some (map Some
                  (map (\<lambda>x. x mod indexModulus (length xs1 + length xs2)) xs1
                   @ map (\<lambda>x. (n1 + x) mod indexModulus (length xs1 + length xs2)) xs2)),
                primitiveType = primitiveType (geometry i1),
                boundingSphere = boundingSphere_loop unionSpheres [i1, i2] None\<rparr>"
proof -
  let ?pt = "primitiveType (geometry i1)"
  let ?N = "length xs1 + length xs2"
  let ?buf = "createTypedArray (length v1 + length v2) :: 'a jsarray"
  let ?found = "[(name, \<lparr>componentDatatype = componentDatatype a1,
                   componentsPerAttribute = componentsPerAttribute a1,
                   normalize = normalize a1, values = Some ?buf\<rparr>)]"
  have found: "findAttributesInAllGeometries [i1, i2] = Inr ?found"
    using a1 a2 schema v1 v2 by (simp add: findAttributesInAllGeometries_def)
  have cp1: "copyValues v1 ?buf 0 = (v1 @ replicate (length v2) (Some 0), length v1)"
    by (simp add: copyValues_spec createTypedArray_def)
  have cp2: "copyValues v2 (v1 @ replicate (length v2) (Some 0)) (length v1)
             = (v1 @ v2, length v1 + length v2)"
    by (simp add: copyValues_spec)
  have vals: "combineValues_loop name [i1, i2] ?buf 0 = Inr (v1 @ v2)"
    using a1 a2 v1 v2 by (simp add: cp1 cp2)
  have attrs: "combineAttributes_loop ?found [i1, i2]
               = Inr [(name, a1\<lparr>values := Some (v1 @ v2)\<rparr>)]"
    by (cases a1) (simp add: vals del: combineValues_loop.simps)
  have num: "numberOfIndices_loop ?pt [i1, i2] [] = Inr [(?pt, ?N)]"
    using x1 x2 by simp
  have off: "jsadd (Some 0) (jsdivide (length v1) (componentsPerAttribute a1)) = Some (of_nat n1)"
    using c l1 by (simp add: jsdivide_exact jsadd_def)
  have st1: "storeIndices (map Some xs1) (Some 0) (allocateIndexArray ?N) 0
        = (if ?N < 60 * 1024
           then Uint16Array (map (\<lambda>x. x mod 2 ^ 16) xs1 @ replicate (length xs2) 0)
           else Uint32Array (map (\<lambda>x. x mod 2 ^ 32) xs1 @ replicate (length xs2) 0),
           length xs1)"
    using storeIndices_allocated_first [of xs1 0 "length xs2"] by simp
  have st2a: "storeIndices (map Some xs2) (Some (of_nat n1))
               (Uint16Array (map (\<lambda>x. x mod 2 ^ 16) xs1 @ replicate (length xs2) 0)) (length xs1)
        = (Uint16Array (map (\<lambda>x. x mod 2 ^ 16) xs1 @ map (\<lambda>x. (n1 + x) mod 2 ^ 16) xs2),
           length xs1 + length xs2)"
    by (simp add: storeIndices_Uint16)
  have st2b: "storeIndices (map Some xs2) (Some (of_nat n1))
               (Uint32Array (map (\<lambda>x. x mod 2 ^ 32) xs1 @ replicate (length xs2) 0)) (length xs1)
        = (Uint32Array (map (\<lambda>x. x mod 2 ^ 32) xs1 @ map (\<lambda>x. (n1 + x) mod 2 ^ 32) xs2),
           length xs1 + length xs2)"
    by (simp add: storeIndices_Uint32)
  have idx: "combineIndices_loop ?pt [i1, i2] (Some 0) [(?pt, allocateIndexArray ?N, 0)]
        = Inr [(?pt,
                if ?N < 60 * 1024
                then Uint16Array (map (\<lambda>x. x mod 2 ^ 16) xs1 @ map (\<lambda>x. (n1 + x) mod 2 ^ 16) xs2)
                else Uint32Array (map (\<lambda>x. x mod 2 ^ 32) xs1 @ map (\<lambda>x. (n1 + x) mod 2 ^ 32) xs2),
                ?N)]"
    using x1 x2 a1 a2 v1 v2
    by (simp add: st1 off st2a [simplified] st2b [simplified])
  show ?thesis
    using mm
    by (simp add: combine_def found attrs num idx indexModulus_def
          del: combineAttributes_loop.simps combineValues_loop.simps numberOfIndices_loop.simps
            combineIndices_loop.simps boundingSphere_loop.simps)
qed

text \<open>
  C7. Two instances with the same transform, each with the single attribute
  \<^verbatim>\<open>position\<close> of the same schema, over 3 and over 4 vertices, with index lists over
  their own vertices: \<^verbatim>\<open>combine\<close> returns a geometry whose \<^verbatim>\<open>position\<close> values
  are the two value arrays one after the other, \<open>(3 + 4)\<close> times the component count
  long, and whose index list is the first instance's indices followed by the second
  instance's indices, each plus 3.
\<close>

theorem combine_concatenates_and_offsets:
  fixes i1 i2 :: "('a :: zero, 'b, 'm) GeometryInstance"
  assumes mm: "modelMatrix i2 = modelMatrix i1"
    and a1: "attributes (geometry i1) = [(''position'', a1)]"
    and a2: "attributes (geometry i2) = [(''position'', a2)]"
    and schema: "componentDatatype a1 = componentDatatype a2"
      "componentsPerAttribute a1 = componentsPerAttribute a2" "normalize a1 = normalize a2"
    and c: "0 < componentsPerAttribute a1"
    and v1: "values a1 = Some v1" and l1: "length v1 = 3 * componentsPerAttribute a1"
    and v2: "values a2 = Some v2" and l2: "length v2 = 4 * componentsPerAttribute a2"
    and x1: "indexList (geometry i1) = Some (map Some xs1)"
    and x2: "indexList (geometry i2) = Some (map Some xs2)"
    and r1: "\<forall>x\<in>set xs1. x < 3" and r2: "\<forall>x\<in>set xs2. x < 4"
  shows "\<exists>g a. combine unionSpheres (Some [i1, i2]) = Inr g
           \<and> attributes g = [(''position'', a)]
           \<and> values a = Some (v1 @ v2)
           \<and> length (v1 @ v2) = (3 + 4) * componentsPerAttribute a
           \<and> componentsPerAttribute a = componentsPerAttribute a1
           \<and> indexList g = Some (map Some (xs1 @ map (\<lambda>x. x + 3) xs2))
           \<and> primitiveType g = primitiveType (geometry i1)"
proof -
  have W: "2 ^ 16 \<le> indexModulus (length xs1 + length xs2)"
    by (simp add: indexModulus_def)
  have m1: "map (\<lambda>x. x mod indexModulus (length xs1 + length xs2)) xs1 = xs1"
  proof (rule map_idI)
    fix x assume "x \<in> set xs1"
    with r1 have "x < 3" by simp
    with W show "x mod indexModulus (length xs1 + length xs2) = x" by simp
  qed
  have m2: "map (\<lambda>x. (3 + x) mod indexModulus (length xs1 + length xs2)) xs2
            = map (\<lambda>x. x + 3) xs2"
  proof (rule map_cong [OF refl])
    fix x assume "x \<in> set xs2"
    with r2 have "x < 4" by simp
    with W show "(3 + x) mod indexModulus (length xs1 + length xs2) = x + 3" by simp
  qed
  have len: "length (v1 @ v2) = (3 + 4) * componentsPerAttribute a1"
    using l1 l2 schema by simp
  show ?thesis
    using combine_two_instances [OF mm a1 a2 schema c v1 l1 v2 x1 x2, of unionSpheres] len
    by (simp add: m1 m2 del: boundingSphere_loop.simps)
qed

theorem combine_concatenates_and_offsets_witness:
  "\<exists>g a. combine (\<lambda>a b. a) (Some [instance3, instance4]) = Inr g
     \<and> attributes g = [(''position'', a)]
     \<and> values a = Some [Some 10, Some 11, Some 20, Some 21, Some 30, Some 31,
                         Some 40, Some 41, Some 50, Some 51, Some 60, Some 61,
                         Some 70, Some 71]
     \<and> componentsPerAttribute a = 2
     \<and> indexList g = Some [Some 0, Some 1, Some 2, Some 3, Some 4, Some 5, Some 5, Some 4,
                            Some 6]
     \<and> primitiveType g = TRIANGLES"
proof -
  let ?a1 = "\<lparr>componentDatatype = FLOAT, componentsPerAttribute = 2, normalize = False,
               values = Some [Some 10, Some 11, Some 20, Some 21, Some 30, Some (31::int)]\<rparr>"
  let ?a2 = "\<lparr>componentDatatype = FLOAT, componentsPerAttribute = 2, normalize = False,
               values = Some [Some 40, Some 41, Some 50, Some 51, Some 60, Some 61,
                              Some 70, Some (71::int)]\<rparr>"
  have "\<exists>g a. combine (\<lambda>a b. a) (Some [instance3, instance4]) = Inr g
     \<and> attributes g = [(''position'', a)]
     \<and> values a = Some ([Some 10, Some 11, Some 20, Some 21, Some 30, Some 31]
                         @ [Some 40, Some 41, Some 50, Some 51, Some 60, Some 61,
                            Some 70, Some 71])
     \<and> length ([Some 10, Some 11, Some 20, Some 21, Some 30, Some (31::int)]
                @ [Some 40, Some 41, Some 50, Some 51, Some 60, Some 61,
                   Some 70, Some (71::int)]) = (3 + 4) * componentsPerAttribute a
     \<and> componentsPerAttribute a = componentsPerAttribute ?a1
     \<and> indexList g = Some (map Some ([0, 1, 2] @ map (\<lambda>x. x + 3) [0, 1, 2, 2, 1, 3]))
     \<and> primitiveType g = primitiveType (geometry instance3)"
    by (rule combine_concatenates_and_offsets [where ?a1.0 = ?a1 and ?a2.0 = ?a2])
       (simp_all add: instance3_def instance4_def)
  then obtain g a where r: "combine (\<lambda>a b. a) (Some [instance3, instance4]) = Inr g"
      "attributes g = [(''position'', a)]"
      "values a = Some ([Some 10, Some 11, Some 20, Some 21, Some 30, Some 31]
                         @ [Some 40, Some 41, Some 50, Some 51, Some 60, Some 61,
                            Some 70, Some 71])"
      "componentsPerAttribute a = componentsPerAttribute ?a1"
      "indexList g = Some (map Some ([0, 1, 2] @ map (\<lambda>x. x + 3) [0, 1, 2, 2, 1, 3]))"
      "primitiveType g = primitiveType (geometry instance3)"
    by blast
  have pt: "primitiveType (geometry instance3) = TRIANGLES"
    by (simp add: instance3_def)
  from r pt show ?thesis
    by (intro exI [of _ g] exI [of _ a]) simp
qed

text \<open>
  C3. The claim says that instances of distinct primitive types give one combined
  index buffer per primitive type. The code keeps its dictionaries of index counts and
  index buffers under the primitive type of the first instance only: a
  \<^verbatim>\<open>TRIANGLES\<close> instance with indices \<open>[0, 1, 2]\<close> and a \<^verbatim>\<open>LINES\<close> instance with
  indices \<open>[0, 1]\<close> are combined into the single \<^verbatim>\<open>TRIANGLES\<close> index list
  \<open>[0, 1, 2, 3, 4]\<close>.
\<close>

theorem combine_mixed_topologies_single_buffer:
  "combine unionSpheres (Some [triangleInstance, lineInstance])
   = Inr \<lparr>attributes = [(''position'', \<lparr>componentDatatype = FLOAT,
             componentsPerAttribute = 1, normalize = False,
             values = Some [Some 10, Some 11, Some 12, Some 20, Some 21]\<rparr>)],
          indexList = Some [Some 0, Some 1, Some 2, Some 3, Some 4],
          primitiveType = TRIANGLES, boundingSphere = None\<rparr>"
proof -
  let ?a1 = "\<lparr>componentDatatype = FLOAT, componentsPerAttribute = 1, normalize = False,
               values = Some [Some 10, Some 11, Some (12::int)]\<rparr>"
  let ?a2 = "\<lparr>componentDatatype = FLOAT, componentsPerAttribute = 1, normalize = False,
               values = Some [Some 20, Some (21::int)]\<rparr>"
  have "combine unionSpheres (Some [triangleInstance, lineInstance])
        = Inr \<lparr>attributes = [(''position'',
                   ?a1\<lparr>values := Some ([Some 10, Some 11, Some 12] @ [Some 20, Some 21])\<rparr>)],
                indexList = Some (map Some
                  (map (\<lambda>x. x mod indexModulus (length [0, 1, 2 :: nat] + length [0, 1 :: nat]))
                     [0, 1, 2]
                   @ map (\<lambda>x. (3 + x) mod indexModulus (length [0, 1, 2 :: nat]
                             + length [0, 1 :: nat])) [0, 1])),
                primitiveType = primitiveType (geometry triangleInstance),
                boundingSphere = boundingSphere_loop unionSpheres
                  [triangleInstance, lineInstance] None\<rparr>"
    by (rule combine_two_instances [where ?a1.0 = ?a1 and ?a2.0 = ?a2])
       (simp_all add: triangleInstance_def lineInstance_def)
  then show ?thesis
    by (simp add: triangleInstance_def lineInstance_def indexModulus_def)
qed

section \<open>Properties of fitToUnsignedShortIndices\<close>

declare splitPrimitives_loop.simps [simp del]

lemma copyAttributesDescriptions_ready:
  "(name, a) \<in> set attrs \<Longrightarrow> values a \<noteq> None
     \<Longrightarrow> attributeReady (copyAttributesDescriptions attrs) name"
proof (induction attrs)
  case Nil
  then show ?case by simp
next
  case (Cons na attrs)
  obtain n0 a0 where na: "na = (n0, a0)" by (cases na)
  show ?case
  proof (cases "values a0")
    case None
    with Cons na show ?thesis by auto
  next
    case (Some vs)
    show ?thesis
    proof (cases "name = n0")
      case True
      then show ?thesis by (simp add: na Some attributeReady_def)
    next
      case False
      with Cons na have "attributeReady (copyAttributesDescriptions attrs) name" by auto
      with False show ?thesis by (simp add: na Some attributeReady_def)
    qed
  qed
qed

lemma pushComponents_ready:
  "attributeReady dst name \<Longrightarrow>
   \<exists>dst'. pushComponents name comps dst = Some dst'
         \<and> (\<forall>n. attributeReady dst n \<longrightarrow> attributeReady dst' n)"
proof (induction dst)
  case Nil
  then show ?case by (simp add: attributeReady_def)
next
  case (Cons nb dst)
  obtain n0 b0 where nb: "nb = (n0, b0)" by (cases nb)
  show ?case
  proof (cases "n0 = name")
    case True
    with Cons.prems obtain vs where "values b0 = Some vs"
      by (auto simp: nb attributeReady_def)
    with True show ?thesis by (auto simp: nb attributeReady_def)
  next
    case False
    with Cons.prems have "attributeReady dst name" by (simp add: nb attributeReady_def)
    from Cons.IH [OF this] obtain dst' where
      "pushComponents name comps dst = Some dst'"
      "\<forall>n. attributeReady dst n \<longrightarrow> attributeReady dst' n" by blast
    with False show ?thesis by (auto simp: nb attributeReady_def)
  qed
qed

lemma copyVertex_ready:
  "(\<forall>na\<in>set src. values (snd na) \<noteq> None \<longrightarrow> attributeReady dst (fst na)) \<Longrightarrow>
   \<exists>dst'. copyVertex dst src index = Inr dst'
         \<and> (\<forall>n. attributeReady dst n \<longrightarrow> attributeReady dst' n)"
proof (induction src arbitrary: dst)
  case Nil
  then show ?case by simp
next
  case (Cons na src)
  obtain name a where na: "na = (name, a)" by (cases na)
  show ?case
  proof (cases "values a")
    case None
    with Cons na show ?thesis by simp
  next
    case (Some vs)
    with Cons.prems na have "attributeReady dst name" by simp
    from pushComponents_ready [OF this, of "vertexComponents a vs index"]
    obtain dst1 where d1: "pushComponents name (vertexComponents a vs index) dst = Some dst1"
      "\<forall>n. attributeReady dst n \<longrightarrow> attributeReady dst1 n" by blast
    have "\<forall>na\<in>set src. values (snd na) \<noteq> None \<longrightarrow> attributeReady dst1 (fst na)"
      using Cons.prems d1(2) by simp
    from Cons.IH [OF this] obtain dst' where
      "copyVertex dst1 src index = Inr dst'"
      "\<forall>n. attributeReady dst1 n \<longrightarrow> attributeReady dst' n" by blast
    with d1 show ?thesis by (simp add: na Some)
  qed
qed

lemma remapPrimitive_inv:
  "splitInv K attrs st \<Longrightarrow>
   \<exists>st'. remapPrimitive attrs xs st = Inr st'
        \<and> splitInv K attrs st'
        \<and> currentIndex st' \<le> currentIndex st + length xs
        \<and> geometries st' = geometries st
        \<and> dom (oldToNewIndex st') = dom (oldToNewIndex st) \<union> set xs"
proof (induction xs arbitrary: st)
  case Nil
  then show ?case by simp
next
  case (Cons x xs)
  show ?case
  proof (cases "oldToNewIndex st x")
    case (Some i)
    let ?st1 = "st\<lparr>newIndices := newIndices st @ [i]\<rparr>"
    have "splitInv K attrs ?st1"
      using Cons.prems Some by (auto simp: splitInv_def)
    from Cons.IH [OF this] obtain st' where
      "remapPrimitive attrs xs ?st1 = Inr st'" "splitInv K attrs st'"
      "currentIndex st' \<le> currentIndex ?st1 + length xs"
      "geometries st' = geometries ?st1"
      "dom (oldToNewIndex st') = dom (oldToNewIndex ?st1) \<union> set xs" by blast
    with Some show ?thesis by (auto simp: dom_def)
  next
    case None
    have "\<forall>na\<in>set attrs. values (snd na) \<noteq> None \<longrightarrow> attributeReady (newAttributes st) (fst na)"
      using Cons.prems by (simp add: splitInv_def)
    from copyVertex_ready [OF this, of x] obtain dst' where dst':
      "copyVertex (newAttributes st) attrs x = Inr dst'"
      "\<forall>n. attributeReady (newAttributes st) n \<longrightarrow> attributeReady dst' n" by blast
    let ?st1 = "st\<lparr>oldToNewIndex := (oldToNewIndex st)(x \<mapsto> currentIndex st),
                    newIndices := newIndices st @ [currentIndex st],
                    currentIndex := currentIndex st + 1,
                    newAttributes := dst'\<rparr>"
    have x: "x \<notin> dom (oldToNewIndex st)" using None by (simp add: dom_def)
    have fin: "finite (dom (oldToNewIndex st))" and card: "card (dom (oldToNewIndex st)) = currentIndex st"
      using Cons.prems by (simp_all add: splitInv_def)
    have "card (dom ((oldToNewIndex st)(x \<mapsto> currentIndex st))) = currentIndex st + 1"
      using x fin card by simp
    moreover have "\<forall>y i. ((oldToNewIndex st)(x \<mapsto> currentIndex st)) y = Some i
                     \<longrightarrow> i < currentIndex st + 1"
      using Cons.prems by (auto simp: splitInv_def less_Suc_eq)
    moreover have "\<forall>i\<in>set (newIndices st @ [currentIndex st]). i < currentIndex st + 1"
      using Cons.prems by (auto simp: splitInv_def less_Suc_eq)
    ultimately have "splitInv K attrs ?st1"
      using Cons.prems dst'(2) fin by (simp add: splitInv_def)
    from Cons.IH [OF this] obtain st' where
      "remapPrimitive attrs xs ?st1 = Inr st'" "splitInv K attrs st'"
      "currentIndex st' \<le> currentIndex ?st1 + length xs"
      "geometries st' = geometries ?st1"
      "dom (oldToNewIndex st') = dom (oldToNewIndex ?st1) \<union> set xs" by blast
    with None dst'(1) show ?thesis by auto
  qed
qed

lemma primitive_entries:
  assumes "j \<le> q" "q < j + ipp" "q < length idxs"
  shows "idxs ! q \<in> set (map (\<lambda>k. jsget idxs (j + k)) [0..<ipp])"
proof -
  have "q - j < ipp" using assms by simp
  moreover have "jsget idxs (j + (q - j)) = idxs ! q" using assms by (simp add: jsget_def)
  ultimately show ?thesis by (auto simp: image_iff intro!: bexI [of _ "q - j"])
qed

lemma splitPrimitives_loop_inv:
  assumes "0 < ipp" "splitInv K (attributes g) st" "currentIndex st + ipp \<le> K"
    and "finite S" "card S \<le> K * length (geometries st)"
    and "P \<subseteq> S \<union> dom (oldToNewIndex st)"
  shows "\<exists>st' S'. splitPrimitives_loop K ipp g idxs j st = Inr st'
           \<and> splitInv K (attributes g) st'
           \<and> currentIndex st' + ipp \<le> K
           \<and> finite S' \<and> card S' \<le> K * length (geometries st')
           \<and> P \<union> {idxs ! q | q. j \<le> q \<and> q < length idxs} \<subseteq> S' \<union> dom (oldToNewIndex st')"
  using assms
proof (induction K ipp g idxs j st arbitrary: S P rule: splitPrimitives_loop.induct)
  case (1 K ipp g idxs j st)
  show ?case
  proof (cases "j < length idxs")
    case False
    then have "{idxs ! q | q. j \<le> q \<and> q < length idxs} = {}" by auto
    with False 1(2-7) show ?thesis
      by (subst splitPrimitives_loop.simps) auto
  next
    case True
    let ?E = "map (\<lambda>k. jsget idxs (j + k)) [0..<ipp]"
    from remapPrimitive_inv [OF 1(3), of ?E] obtain st1 where st1:
      "remapPrimitive (attributes g) ?E st = Inr st1" "splitInv K (attributes g) st1"
      "currentIndex st1 \<le> currentIndex st + length ?E"
      "geometries st1 = geometries st"
      "dom (oldToNewIndex st1) = dom (oldToNewIndex st) \<union> set ?E" by blast
    have c1: "currentIndex st1 \<le> K" using st1(3) 1(4) by simp
    let ?sealed = "st1\<lparr>geometries := geometries st1 @ [sealGeometry (primitiveType g) st1],
                         oldToNewIndex := Map.empty, newIndices := [], currentIndex := 0,
                         newAttributes := copyAttributesDescriptions (attributes g)\<rparr>"
    let ?st2 = "if currentIndex st1 + ipp > K then ?sealed else st1"
    let ?S2 = "if currentIndex st1 + ipp > K then S \<union> dom (oldToNewIndex st1) else S"
    have inv2: "splitInv K (attributes g) ?st2"
    proof (cases "currentIndex st1 + ipp > K")
      case False
      with st1(2) show ?thesis by simp
    next
      case True
      have "\<forall>i\<in>set (newIndices st1). i < K"
        using st1(2) c1 by (auto simp: splitInv_def)
      then have "\<exists>idx. indexList (sealGeometry (primitiveType g) st1) = Some (map Some idx)
                   \<and> (\<forall>i\<in>set idx. i < K)"
        by (auto simp: sealGeometry_def)
      moreover have "\<forall>na\<in>set (attributes g). values (snd na) \<noteq> None
           \<longrightarrow> attributeReady (copyAttributesDescriptions (attributes g)) (fst na)"
        by (auto intro: copyAttributesDescriptions_ready)
      ultimately show ?thesis
        using True st1(2) by (simp add: splitInv_def)
    qed
    have cur2: "currentIndex ?st2 + ipp \<le> K"
      using 1(4) by simp
    have fin2: "finite ?S2"
      using 1(5) st1(2) by (simp add: splitInv_def)
    have card2: "card ?S2 \<le> K * length (geometries ?st2)"
    proof (cases "currentIndex st1 + ipp > K")
      case False
      with 1(6) st1(4) show ?thesis by simp
    next
      case True
      have "card (S \<union> dom (oldToNewIndex st1)) \<le> card S + card (dom (oldToNewIndex st1))"
        by (rule card_Un_le)
      also have "\<dots> \<le> K * length (geometries st) + K"
        using 1(6) c1 st1(2) by (simp add: splitInv_def)
      finally show ?thesis using True st1(4) by simp
    qed
    have cover2: "P \<union> set ?E \<subseteq> ?S2 \<union> dom (oldToNewIndex ?st2)"
      using 1(7) st1(5) by auto
    from 1(1) [OF _ st1(1) 1(2) inv2 cur2 fin2 card2 cover2] True 1(2)
    obtain st' S' where r:
      "splitPrimitives_loop K ipp g idxs (j + ipp) ?st2 = Inr st'"
      "splitInv K (attributes g) st'" "currentIndex st' + ipp \<le> K"
      "finite S'" "card S' \<le> K * length (geometries st')"
      "P \<union> set ?E \<union> {idxs ! q | q. j + ipp \<le> q \<and> q < length idxs}
         \<subseteq> S' \<union> dom (oldToNewIndex st')"
      by blast
    have "{idxs ! q | q. j \<le> q \<and> q < length idxs}
          \<subseteq> set ?E \<union> {idxs ! q | q. j + ipp \<le> q \<and> q < length idxs}"
    proof
      fix y assume "y \<in> {idxs ! q | q. j \<le> q \<and> q < length idxs}"
      then obtain q where q: "y = idxs ! q" "j \<le> q" "q < length idxs" by blast
      show "y \<in> set ?E \<union> {idxs ! q | q. j + ipp \<le> q \<and> q < length idxs}"
      proof (cases "q < j + ipp")
        case True
        with q primitive_entries [of j q ipp idxs] show ?thesis by simp
      next
        case False
        with q show ?thesis by auto
      qed
    qed
    with r(6) have cover: "P \<union> {idxs ! q | q. j \<le> q \<and> q < length idxs}
         \<subseteq> S' \<union> dom (oldToNewIndex st')"
      by blast
    have "splitPrimitives_loop K ipp g idxs j st = Inr st'"
      using True 1(2) st1(1) r(1) by (subst splitPrimitives_loop.simps) simp
    with r(2-5) cover show ?thesis by blast
  qed
qed

lemma splitGeometry_spec:
  assumes ipp: "0 < indicesPerPrimitive (primitiveType g)"
      "indicesPerPrimitive (primitiveType g) \<le> K"
  shows "\<exists>gs. splitGeometry K g idxs = Inr gs
           \<and> card (set idxs) \<le> K * length gs
           \<and> (\<forall>h\<in>set gs. \<exists>idx. indexList h = Some (map Some idx) \<and> (\<forall>i\<in>set idx. i < K))"
proof -
  let ?ipp = "indicesPerPrimitive (primitiveType g)"
  let ?st0 = "\<lparr>oldToNewIndex = Map.empty, newIndices = [], currentIndex = 0,
               newAttributes = copyAttributesDescriptions (attributes g),
               geometries = ([] :: ('a, 'b) Geometry list)\<rparr>"
  have inv0: "splitInv K (attributes g) ?st0"
    by (auto simp: splitInv_def intro: copyAttributesDescriptions_ready)
  from splitPrimitives_loop_inv [OF ipp(1) inv0, of "{}" "{}" idxs 0] ipp(2)
  obtain st' S' where r:
    "splitPrimitives_loop K ?ipp g idxs 0 ?st0 = Inr st'"
    "splitInv K (attributes g) st'" "currentIndex st' + ?ipp \<le> K"
    "finite S'" "card S' \<le> K * length (geometries st')"
    "{idxs ! q | q. 0 \<le> q \<and> q < length idxs} \<subseteq> S' \<union> dom (oldToNewIndex st')"
    by auto
  let ?gs = "if newIndices st' \<noteq> [] then geometries st' @ [sealGeometry (primitiveType g) st']
             else geometries st'"
  have run: "splitGeometry K g idxs = Inr ?gs"
    by (simp add: splitGeometry_def r(1))
  have "set idxs \<subseteq> {idxs ! q | q. 0 \<le> q \<and> q < length idxs}"
    by (auto simp: in_set_conv_nth)
  then have "set idxs \<subseteq> S' \<union> dom (oldToNewIndex st')"
    using r(6) by (rule subset_trans)
  moreover have fin: "finite (S' \<union> dom (oldToNewIndex st'))"
    using r(2,4) by (simp add: splitInv_def)
  ultimately have "card (set idxs) \<le> card (S' \<union> dom (oldToNewIndex st'))"
    by (intro card_mono)
  also have "\<dots> \<le> card S' + card (dom (oldToNewIndex st'))"
    by (rule card_Un_le)
  also have "\<dots> \<le> K * length (geometries st') + currentIndex st'"
    using r(2,5) by (simp add: splitInv_def)
  also have "\<dots> \<le> K * length ?gs"
  proof (cases "newIndices st' = []")
    case True
    with r(2) have "currentIndex st' = 0" by (auto simp: splitInv_def)
    with True show ?thesis by simp
  next
    case False
    with r(3) show ?thesis by simp
  qed
  finally have count: "card (set idxs) \<le> K * length ?gs" .
  have "\<forall>i\<in>set (newIndices st'). i < K"
    using r(2,3) by (auto simp: splitInv_def)
  then have last: "\<exists>idx. indexList (sealGeometry (primitiveType g) st') = Some (map Some idx)
                   \<and> (\<forall>i\<in>set idx. i < K)"
    by (auto simp: sealGeometry_def)
  have bound: "\<forall>h\<in>set ?gs. \<exists>idx. indexList h = Some (map Some idx) \<and> (\<forall>i\<in>set idx. i < K)"
    using r(2) last by (auto simp: splitInv_def)
  from run count bound show ?thesis by blast
qed

text \<open>
  C2. For a \<^verbatim>\<open>TRIANGLES\<close> geometry whose index list refers to more than 65536
  distinct vertices of the geometry, \<^verbatim>\<open>fitToUnsignedShortIndices\<close> returns at least
  two geometries, and every index of every returned geometry is below 65536.
\<close>

theorem fitToUnsignedShortIndices_splits:
  assumes tri: "primitiveType g = TRIANGLES"
    and idx: "indexList g = Some (map Some xs)"
    and n: "computeNumberOfVertices g = Inr numberOfVertices"
    and valid: "\<forall>x\<in>set xs. x < numberOfVertices"
    and many: "65536 < card (set xs)"
  shows "\<exists>gs. fitToUnsignedShortIndices (Some g) = Inr gs
           \<and> 2 \<le> length gs
           \<and> (\<forall>h\<in>set gs. \<exists>indices. indexList h = Some (map Some indices)
                 \<and> (\<forall>i\<in>set indices. i < 65536))"
proof -
  have "set xs \<subseteq> {..<numberOfVertices}" using valid by auto
  then have "card (set xs) \<le> card {..<numberOfVertices}" by (intro card_mono) simp_all
  with many have big: "64 * 1024 < numberOfVertices" by simp
  have ipp: "0 < indicesPerPrimitive (primitiveType g)"
    "indicesPerPrimitive (primitiveType g) \<le> 65536"
    by (simp_all add: tri indicesPerPrimitive_def)
  from splitGeometry_spec [OF ipp, of "map Some xs"] obtain gs where gs:
    "splitGeometry 65536 g (map Some xs) = Inr gs"
    "card (set (map Some xs)) \<le> 65536 * length gs"
    "\<forall>h\<in>set gs. \<exists>idx. indexList h = Some (map Some idx) \<and> (\<forall>i\<in>set idx. i < 65536)"
    by blast
  have "card (set (map Some xs)) = card (set xs)"
    by (simp add: card_image)
  with gs(2) many have "65536 * 1 < 65536 * length gs" by simp
  then have two: "2 \<le> length gs" by simp
  have "fitToUnsignedShortIndices (Some g) = Inr gs"
    using tri idx n big gs(1) by (simp add: fitToUnsignedShortIndices_def)
  with two gs(3) show ?thesis by blast
qed

theorem fitToUnsignedShortIndices_splits_witness:
  "\<exists>gs. fitToUnsignedShortIndices (Some largeGeometry) = Inr gs
     \<and> 2 \<le> length gs
     \<and> (\<forall>h\<in>set gs. \<exists>indices. indexList h = Some (map Some indices)
           \<and> (\<forall>i\<in>set indices. i < 65536))"
proof -
  have tri: "primitiveType largeGeometry = TRIANGLES"
    by (simp add: largeGeometry_def)
  have idx: "indexList largeGeometry = Some (map Some [0..<65538])"
    by (simp add: largeGeometry_def)
  have n: "computeNumberOfVertices largeGeometry = Inr 65538"
    by (simp add: largeGeometry_def computeNumberOfVertices_def)
  have valid: "\<forall>x\<in>set [0..<65538]. x < 65538"
    by simp
  have many: "65536 < card (set [0..<65538])"
    by simp
  from fitToUnsignedShortIndices_splits [OF tri idx n valid many] show ?thesis .
qed

end
